(* ===== verification/Prelude.thy ===== *)
theory Prelude
  imports Main "HOL-Library.Signed_Division"
begin

text \<open>
  Shared ground of the development: C's \<^verbatim>\<open>int\<close> and its range, the faults that undefined
  behaviour of C is modelled by, the answers of the operating system that the code branches
  on, generic list lemmas, and the theorem collections that the component theories extend.
\<close>

named_theorems lib_defs \<open>definitions of the device-library operations\<close>
named_theorems handler_defs \<open>definitions of the command handlers\<close>
named_theorems inv_defs \<open>definitions of the component invariants\<close>

section \<open>Machine integers\<close>

text \<open>
  Values of C's \<^verbatim>\<open>int\<close> are kept as HOL integers; \<open>in_int\<close> is the range of the 32-bit
  type of the target. The code compares \<^verbatim>\<open>int\<close>s, indexes with them and takes remainders
  (C's \<^verbatim>\<open>%\<close> is the truncating \<open>smod\<close>); an addition that leaves the range is a fault.
\<close>

type_synonym c_int = int

definition INT_MIN :: c_int where
  "INT_MIN = - (2 ^ 31)"

definition INT_MAX :: c_int where
  "INT_MAX = 2 ^ 31 - 1"

definition in_int :: "int \<Rightarrow> bool" where
  "in_int x \<longleftrightarrow> INT_MIN \<le> x \<and> x \<le> INT_MAX"

text \<open>The two's complement reading of the low 32 bits of an integer.\<close>

definition wrap_int :: "int \<Rightarrow> c_int" where
  "wrap_int x = (x + 2 ^ 31) mod 2 ^ 32 - 2 ^ 31"

lemmas int_range_defs = in_int_def INT_MIN_def INT_MAX_def

lemma in_int_wrap_int [simp]: "in_int (wrap_int x)"
proof -
  have "0 \<le> (x + 2 ^ 31) mod 2 ^ 32" "(x + 2 ^ 31) mod 2 ^ 32 < (2 ^ 32 :: int)"
    by simp_all
  then show ?thesis by (simp add: int_range_defs wrap_int_def)
qed

lemma wrap_int_id [simp]: "in_int x \<Longrightarrow> wrap_int x = x"
  by (simp add: int_range_defs wrap_int_def)

lemma smod_nonneg [simp]: "0 \<le> a \<Longrightarrow> 0 < b \<Longrightarrow> (a :: int) smod b = a mod b"
  by (cases "a = 0")
    (simp_all add: signed_modulo_int_def signed_divide_int_def minus_div_mult_eq_mod [symmetric])

section \<open>Faults and results\<close>

text \<open>
  Where C leaves the behaviour undefined the model stops with a fault, so that the absence of
  undefined behaviour is a theorem and not an accident of HOL's total functions.
\<close>

datatype fault =
    OutOfBounds     \<comment> \<open>an array is indexed outside its bounds\<close>
  | BadPointer      \<comment> \<open>a pointer that is not a live allocation is followed or freed\<close>
  | IntOverflow     \<comment> \<open>signed addition leaves the range of int\<close>
  | BadHandle       \<comment> \<open>a lock, descriptor or thread that is not held is destroyed, closed or joined\<close>

type_synonym 'a checked = "fault + 'a"

definition checked_bind :: "'a checked \<Rightarrow> ('a \<Rightarrow> 'b checked) \<Rightarrow> 'b checked" where
  "checked_bind m f = (case m of Inl e \<Rightarrow> Inl e | Inr a \<Rightarrow> f a)"

lemma checked_bind_simps [simp]:
  "checked_bind (Inl e) f = Inl e"
  "checked_bind (Inr a) f = f a"
  by (simp_all add: checked_bind_def)

definition no_fault :: "'a checked \<Rightarrow> bool" where
  "no_fault m \<longleftrightarrow> (case m of Inl _ \<Rightarrow> False | Inr _ \<Rightarrow> True)"

lemma no_fault_simps [simp]: "no_fault (Inr a)" "\<not> no_fault (Inl e)"
  by (simp_all add: no_fault_def)

definition add_int :: "c_int \<Rightarrow> c_int \<Rightarrow> c_int checked" where
  "add_int a b = (if in_int (a + b) then Inr (a + b) else Inl IntOverflow)"

definition array_get :: "'a list \<Rightarrow> c_int \<Rightarrow> 'a checked" where
  "array_get xs i = (if 0 \<le> i \<and> i < int (length xs) then Inr (xs ! nat i) else Inl OutOfBounds)"

definition array_set :: "'a list \<Rightarrow> c_int \<Rightarrow> 'a \<Rightarrow> 'a list checked" where
  "array_set xs i v =
     (if 0 \<le> i \<and> i < int (length xs) then Inr (xs[nat i := v]) else Inl OutOfBounds)"

lemma array_get_in [simp]: "i < length xs \<Longrightarrow> array_get xs (int i) = Inr (xs ! i)"
  by (simp add: array_get_def)

lemma array_set_in [simp]: "i < length xs \<Longrightarrow> array_set xs (int i) v = Inr (xs[i := v])"
  by (simp add: array_set_def)

section \<open>The environment's answers\<close>

text \<open>
  What the code asks of the C library and of wiringPi while it handles one request, and
  branches on: whether \<^verbatim>\<open>malloc\<close> gives memory, whether \<^verbatim>\<open>pthread_create\<close> starts a
  thread, what \<^verbatim>\<open>softToneCreate\<close> returns, and the level \<^verbatim>\<open>digitalRead\<close> finds.
\<close>

record os_env =
  malloc_ok :: bool
  thread_ok :: bool
  tone_create_ret :: c_int
  pin_level_read :: c_int

section \<open>Generic lemmas\<close>

lemma takeWhile_dropWhile_prefix:
  assumes "\<forall>c \<in> set xs. P c" and "ys = [] \<or> \<not> P (hd ys)"
  shows "takeWhile P (xs @ ys) = xs" and "dropWhile P (xs @ ys) = ys"
  using assms by (cases ys; simp)+

lemma takeWhile_all_ne: "c \<notin> set xs \<Longrightarrow> takeWhile (\<lambda>x. x \<noteq> c) xs = xs"
  by (induction xs) auto

lemma takeWhile_ne_append:
  "c \<notin> set xs \<Longrightarrow> takeWhile (\<lambda>x. x \<noteq> c) (xs @ c # ys) = xs"
  by (induction xs) auto

lemma int_cases_le3:
  fixes b :: int
  assumes "1 \<le> b" "b \<le> 3"
  obtains "b = 1" | "b = 2" | "b = 3"
  using assms by linarith

lemma length_filter_update:
  "i < length xs \<Longrightarrow>
     length (filter P (xs[i := x])) + of_bool (P (xs ! i)) = length (filter P xs) + of_bool (P x)"
proof (induction xs arbitrary: i)
  case (Cons y ys)
  then show ?case by (cases i) auto
qed simp

end
