(* ===== verification/C_Text.thy ===== *)
theory C_Text
  imports Prelude "HOL-Library.Sublist"
begin

text \<open>
  What the programs use of C's string functions: strings up to their NUL, \<^verbatim>\<open>strchr\<close>
  followed by a NUL store, \<^verbatim>\<open>%d\<close> printing, \<^verbatim>\<open>%d\<close> scanning and \<^verbatim>\<open>atoi\<close>,
  and \<^verbatim>\<open>snprintf\<close>'s truncation. The main result is that scanning what was printed
  gives the number back, which is what the text protocol and the PID file rest on.

  C does not say what is stored for a numeral that no \<^verbatim>\<open>int\<close> can hold; the argument
  \<open>conv\<close> of the scanning functions is the platform's answer in that case.
\<close>

section \<open>C strings\<close>

definition cstr :: "char list \<Rightarrow> string" where
  "cstr buf = takeWhile (\<lambda>c. c \<noteq> CHR 0x00) buf"

text \<open>\<^verbatim>\<open>p = strchr(s, c); if (p) *p = 0\<close>: the string ends before the first \<open>c\<close>.\<close>

definition cut_at :: "char \<Rightarrow> string \<Rightarrow> string" where
  "cut_at c s = takeWhile (\<lambda>x. x \<noteq> c) s"

text \<open>\<^verbatim>\<open>snprintf(buf, n, ...)\<close> keeps the first \<open>n - 1\<close> characters of the text.\<close>

definition snprintf_trunc :: "nat \<Rightarrow> string \<Rightarrow> string" where
  "snprintf_trunc n s = take (n - 1) s"

text \<open>Bytes beyond ASCII, and the newline.\<close>

definition utf8 :: "nat list \<Rightarrow> string" where
  "utf8 bs = map char_of bs"

definition NL :: string where
  "NL = utf8 [10]"

text \<open>\<^verbatim>\<open>strstr(s, t) != NULL\<close>: \<open>t\<close> occurs in \<open>s\<close>.\<close>

definition strstr_found :: "string \<Rightarrow> string \<Rightarrow> bool" where
  "strstr_found s t \<longleftrightarrow> sublist t s"

lemma utf8_simps [simp]: "length (utf8 bs) = length bs" "utf8 bs @ utf8 cs = utf8 (bs @ cs)"
  by (simp_all add: utf8_def)

lemma length_NL [simp]: "length NL = 1"
  by (simp add: NL_def)

lemma cstr_plain: "CHR 0x00 \<notin> set s \<Longrightarrow> cstr s = s"
  by (simp add: cstr_def takeWhile_all_ne)

lemma NL_eq: "NL = [CHR 0x0A]"
  by code_simp

lemma cut_at_notin [simp]: "c \<notin> set s \<Longrightarrow> cut_at c s = s"
  by (simp add: cut_at_def takeWhile_all_ne)

lemma cut_at_newline [simp]: "c \<notin> set s \<Longrightarrow> cut_at c (s @ c # t) = s"
  by (simp add: cut_at_def takeWhile_ne_append)

lemma notin_cut_at: "c \<notin> set (cut_at c s)"
  by (auto simp: cut_at_def dest: set_takeWhileD)

lemma set_cut_at: "set (cut_at c s) \<subseteq> set s"
  by (auto simp: cut_at_def dest: set_takeWhileD)

lemma snprintf_trunc_fits [simp]: "length s < n \<Longrightarrow> snprintf_trunc n s = s"
  by (simp add: snprintf_trunc_def)

lemma length_snprintf_trunc: "0 < n \<Longrightarrow> length (snprintf_trunc n s) < n"
  by (auto simp: snprintf_trunc_def)

lemma strstr_found_context: "strstr_found s t \<Longrightarrow> strstr_found (u @ s @ v) t"
  by (auto simp: strstr_found_def sublist_def) (metis append.assoc)

section \<open>Decimal digits\<close>

definition is_digit :: "char \<Rightarrow> bool" where
  "is_digit c \<longleftrightarrow> (48 :: nat) \<le> of_char c \<and> of_char c \<le> (57 :: nat)"

definition digit_val :: "char \<Rightarrow> nat" where
  "digit_val c = of_char c - 48"

definition digit_char :: "nat \<Rightarrow> char" where
  "digit_char d = char_of (48 + d)"

text \<open>\<^verbatim>\<open>isspace\<close> of the C locale.\<close>

definition isspace :: "char \<Rightarrow> bool" where
  "isspace c \<longleftrightarrow>
     c = CHR '' '' \<or> c = CHR 0x09 \<or> c = CHR 0x0A \<or> c = CHR 0x0B \<or> c = CHR 0x0C \<or> c = CHR 0x0D"

definition digits_val :: "string \<Rightarrow> nat" where
  "digits_val ds = foldl (\<lambda>acc c. 10 * acc + digit_val c) 0 ds"

lemma of_char_digit_char: "d < 10 \<Longrightarrow> of_char (digit_char d) = 48 + d"
  by (simp add: digit_char_def)

lemma is_digit_digit_char [simp]: "d < 10 \<Longrightarrow> is_digit (digit_char d)"
  by (simp add: is_digit_def of_char_digit_char)

lemma digit_val_digit_char [simp]: "d < 10 \<Longrightarrow> digit_val (digit_char d) = d"
  by (simp add: digit_val_def of_char_digit_char)

lemma digits_val_snoc [simp]: "digits_val (ds @ [c]) = 10 * digits_val ds + digit_val c"
  by (simp add: digits_val_def)

lemma is_digit_not_special:
  assumes "is_digit c"
  shows "c \<noteq> CHR ''-''" "c \<noteq> CHR ''+''" "\<not> isspace c" "c \<noteq> CHR 0x00"
  using assms by (auto simp: is_digit_def isspace_def)

section \<open>Printing\<close>

fun fmt_u :: "nat \<Rightarrow> string" where
  "fmt_u n = (if n < 10 then [digit_char n] else fmt_u (n div 10) @ [digit_char (n mod 10)])"

declare fmt_u.simps [simp del]

text \<open>\<^verbatim>\<open>%d\<close> of the \<^verbatim>\<open>printf\<close> family.\<close>

definition fmt_d :: "c_int \<Rightarrow> string" where
  "fmt_d n = (if n < 0 then CHR ''-'' # fmt_u (nat (- n)) else fmt_u (nat n))"

lemma fmt_u_digits: "\<forall>c \<in> set (fmt_u n). is_digit c"
proof (induction n rule: fmt_u.induct)
  case (1 n)
  then show ?case by (cases "n < 10") (auto simp: fmt_u.simps [of n])
qed

lemma fmt_u_nonempty [simp]: "fmt_u n \<noteq> []"
  by (simp add: fmt_u.simps [of n])

lemma digits_val_fmt_u [simp]: "digits_val (fmt_u n) = n"
proof (induction n rule: fmt_u.induct)
  case (1 n)
  then show ?case
    by (cases "n < 10") (simp_all add: fmt_u.simps [of n] digits_val_def)
qed

lemma length_fmt_u: "n < 10 ^ Suc k \<Longrightarrow> length (fmt_u n) \<le> Suc k"
proof (induction k arbitrary: n)
  case 0
  then show ?case by (simp add: fmt_u.simps [of n])
next
  case (Suc k)
  then have "n div 10 < 10 ^ Suc k" by (simp add: less_mult_imp_div_less)
  with Suc.IH show ?case by (simp add: fmt_u.simps [of n])
qed

text \<open>A 32-bit \<^verbatim>\<open>int\<close> prints in at most eleven characters, sign included.\<close>

lemma length_fmt_d: "in_int n \<Longrightarrow> length (fmt_d n) \<le> 11"
proof -
  assume "in_int n"
  then have "nat (- n) < 10 ^ Suc 9" "nat n < 10 ^ Suc 9"
    by (auto simp: int_range_defs nat_less_iff)
  from this [THEN length_fmt_u] show ?thesis by (simp add: fmt_d_def)
qed

lemma fmt_d_chars: "c \<in> set (fmt_d n) \<Longrightarrow> is_digit c \<or> c = CHR ''-''"
  using fmt_u_digits by (auto simp: fmt_d_def split: if_splits)

lemma fmt_d_plain [simp]:
  "CHR 0x0A \<notin> set (fmt_d n)" "CHR 0x0D \<notin> set (fmt_d n)" "CHR 0x00 \<notin> set (fmt_d n)"
  by (auto dest!: fmt_d_chars simp: is_digit_def)

section \<open>Scanning\<close>

text \<open>
  \<^verbatim>\<open>%d\<close> of \<^verbatim>\<open>sscanf\<close>: white space, an optional sign, at least one digit. \<open>None\<close> is
  a matching failure or the end of the input; otherwise the value stored and the rest.
\<close>

definition stored_int :: "(int \<Rightarrow> c_int) \<Rightarrow> int \<Rightarrow> c_int" where
  "stored_int conv v = (if in_int v then v else conv v)"

definition split_sign :: "string \<Rightarrow> bool \<times> string" where
  "split_sign s =
     (case s of [] \<Rightarrow> (False, [])
      | c # r \<Rightarrow> if c = CHR ''-'' then (True, r) else if c = CHR ''+'' then (False, r) else (False, s))"

definition scan_d :: "(int \<Rightarrow> c_int) \<Rightarrow> string \<Rightarrow> (c_int \<times> string) option" where
  "scan_d conv s =
     (let (neg, r) = split_sign (dropWhile isspace s);
          ds = takeWhile is_digit r;
          v = int (digits_val ds)
      in if ds = [] then None
         else Some (stored_int conv (if neg then - v else v), dropWhile is_digit r))"

text \<open>
  \<^verbatim>\<open>sscanf(s, "%d %d ...", ...)\<close> with \<open>k\<close> conversions: the values converted,
  at most \<open>k\<close>; the call returns their number.
\<close>

fun scan_ds :: "nat \<Rightarrow> (int \<Rightarrow> c_int) \<Rightarrow> string \<Rightarrow> c_int list" where
  "scan_ds 0 conv s = []"
| "scan_ds (Suc k) conv s =
     (case scan_d conv s of None \<Rightarrow> [] | Some (v, r) \<Rightarrow> v # scan_ds k conv r)"

definition sscanf_ddd :: "(int \<Rightarrow> c_int) \<Rightarrow> string \<Rightarrow> c_int list" where
  "sscanf_ddd conv s = scan_ds 3 conv s"

definition atoi :: "(int \<Rightarrow> c_int) \<Rightarrow> string \<Rightarrow> c_int" where
  "atoi conv s = (case scan_d conv s of None \<Rightarrow> 0 | Some (v, _) \<Rightarrow> v)"

lemma dropWhile_isspace_fmt_d [simp]: "dropWhile isspace (fmt_d n @ r) = fmt_d n @ r"
proof (cases "fmt_d n")
  case (Cons c s)
  then have "\<not> isspace c"
    using fmt_d_chars [of c n] is_digit_not_special [of c] by (auto simp: isspace_def)
  with Cons show ?thesis by simp
qed (simp add: fmt_d_def split: if_splits)

lemma split_sign_fmt_d [simp]: "split_sign (fmt_d n @ r) = (n < 0, fmt_u (nat \<bar>n\<bar>) @ r)"
proof (cases "n < 0")
  case False
  then obtain c s where cs: "fmt_u (nat n) = c # s"
    by (cases "fmt_u (nat n)") auto
  with fmt_u_digits [of "nat n"] is_digit_not_special [of c] False
  show ?thesis by (simp add: fmt_d_def split_sign_def)
qed (simp add: fmt_d_def split_sign_def)

text \<open>Scanning a printed number, followed by anything but a digit, gives the number back.\<close>

lemma scan_d_fmt_d:
  assumes "in_int n" and "r = [] \<or> \<not> is_digit (hd r)"
  shows "scan_d conv (fmt_d n @ r) = Some (n, r)"
  using assms takeWhile_dropWhile_prefix [OF fmt_u_digits assms(2)]
  by (simp add: scan_d_def stored_int_def Let_def)

lemma scan_d_space [simp]: "isspace c \<Longrightarrow> scan_d conv (c # s) = scan_d conv s"
  by (simp add: scan_d_def)

lemma isspace_special [simp]: "isspace CHR '' ''" "isspace CHR 0x0A" "isspace CHR 0x0D"
  by (simp_all add: isspace_def)

lemma not_digit_special [simp]: "\<not> is_digit CHR '' ''" "\<not> is_digit CHR 0x0A"
  by (simp_all add: is_digit_def)

lemma sscanf_ddd_fmt:
  assumes "in_int a" "in_int b" "in_int c"
  shows "sscanf_ddd conv (fmt_d a @ '' '' @ fmt_d b @ '' '' @ fmt_d c) = [a, b, c]"
  using scan_d_fmt_d [OF assms(1), of "'' '' @ fmt_d b @ '' '' @ fmt_d c"]
    scan_d_fmt_d [OF assms(2), of "'' '' @ fmt_d c"] scan_d_fmt_d [OF assms(3), of "[]"]
  by (simp add: sscanf_ddd_def numeral_3_eq_3)

lemma atoi_fmt_d:
  assumes "in_int n" and "r = [] \<or> \<not> is_digit (hd r)"
  shows "atoi conv (fmt_d n @ r) = n"
  by (simp add: atoi_def scan_d_fmt_d [OF assms])

lemma scan_d_in_int:
  assumes "\<And>v. in_int (conv v)" and "scan_d conv s = Some (n, r)"
  shows "in_int n"
  using assms by (auto simp: scan_d_def stored_int_def Let_def split: prod.splits if_splits)

lemma scan_ds_in_int:
  assumes conv: "\<And>v. in_int (conv v)"
  shows "n \<in> set (scan_ds k conv s) \<Longrightarrow> in_int n"
  by (induction k arbitrary: s)
    (auto split: option.splits dest: scan_d_in_int [of conv, OF conv sym])

lemma length_scan_ds: "length (scan_ds k conv s) \<le> k"
  by (induction k arbitrary: s) (auto split: option.splits)

lemma atoi_in_int:
  assumes conv: "\<And>v. in_int (conv v)"
  shows "in_int (atoi conv s)"
proof (cases "scan_d conv s")
  case (Some p)
  with scan_d_in_int [of conv s "fst p" "snd p", OF conv] show ?thesis
    by (simp add: atoi_def split_beta)
qed (simp add: atoi_def int_range_defs)

end
