(* ===== verification/Gpio.thy ===== *)
theory Gpio
  imports Prelude
begin

text \<open>
  The boundary to wiringPi. The device libraries are modelled with the sequence of wiringPi
  calls they make; what wiringPi does with a call is not modelled. From a sequence of calls
  one reads off what each pin was last told. The theory also states the contract that the
  four device libraries share: initialise, use, clean up.
\<close>

section \<open>Calls to wiringPi\<close>

datatype pin_mode = INPUT | OUTPUT | PWM_OUTPUT

datatype gpio_call =
    PinMode c_int pin_mode
  | DigitalWrite c_int c_int
  | DigitalRead c_int
  | PwmSetModeMS
  | PwmSetRange c_int
  | PwmSetClock c_int
  | PwmWrite c_int c_int
  | SoftToneCreate c_int
  | SoftToneWrite c_int c_int
  | Delay c_int

text \<open>The pin a call is about; the PWM clock calls are about none.\<close>

fun call_pin :: "gpio_call \<Rightarrow> c_int option" where
  "call_pin (PinMode p _) = Some p"
| "call_pin (DigitalWrite p _) = Some p"
| "call_pin (DigitalRead p) = Some p"
| "call_pin (PwmWrite p _) = Some p"
| "call_pin (SoftToneCreate p) = Some p"
| "call_pin (SoftToneWrite p _) = Some p"
| "call_pin _ = None"

text \<open>What a pin was last told by \<^verbatim>\<open>pwmWrite\<close>, \<^verbatim>\<open>digitalWrite\<close>, \<^verbatim>\<open>softToneWrite\<close>.\<close>

fun pwm_effect :: "gpio_call \<Rightarrow> (c_int \<rightharpoonup> c_int) \<Rightarrow> (c_int \<rightharpoonup> c_int)" where
  "pwm_effect (PwmWrite p v) m = m(p \<mapsto> v)"
| "pwm_effect _ m = m"

fun digital_effect :: "gpio_call \<Rightarrow> (c_int \<rightharpoonup> c_int) \<Rightarrow> (c_int \<rightharpoonup> c_int)" where
  "digital_effect (DigitalWrite p v) m = m(p \<mapsto> v)"
| "digital_effect _ m = m"

fun tone_effect :: "gpio_call \<Rightarrow> (c_int \<rightharpoonup> c_int) \<Rightarrow> (c_int \<rightharpoonup> c_int)" where
  "tone_effect (SoftToneWrite p v) m = m(p \<mapsto> v)"
| "tone_effect _ m = m"

definition pwm_level :: "gpio_call list \<Rightarrow> (c_int \<rightharpoonup> c_int)" where
  "pwm_level tr = fold pwm_effect tr Map.empty"

definition digital_level :: "gpio_call list \<Rightarrow> (c_int \<rightharpoonup> c_int)" where
  "digital_level tr = fold digital_effect tr Map.empty"

definition tone_level :: "gpio_call list \<Rightarrow> (c_int \<rightharpoonup> c_int)" where
  "tone_level tr = fold tone_effect tr Map.empty"

text \<open>The milliseconds a sequence of calls spends in \<^verbatim>\<open>delay\<close>.\<close>

fun call_delay :: "gpio_call \<Rightarrow> int" where
  "call_delay (Delay ms) = ms"
| "call_delay _ = 0"

definition total_delay :: "gpio_call list \<Rightarrow> int" where
  "total_delay tr = sum_list (map call_delay tr)"

lemma pwm_level_simps [simp]:
  "pwm_level [] = Map.empty"
  "pwm_level (tr @ cs) = fold pwm_effect cs (pwm_level tr)"
  by (simp_all add: pwm_level_def)

lemma digital_level_simps [simp]:
  "digital_level [] = Map.empty"
  "digital_level (tr @ cs) = fold digital_effect cs (digital_level tr)"
  by (simp_all add: digital_level_def)

lemma tone_level_simps [simp]:
  "tone_level [] = Map.empty"
  "tone_level (tr @ cs) = fold tone_effect cs (tone_level tr)"
  by (simp_all add: tone_level_def)

lemma total_delay_simps [simp]:
  "total_delay [] = 0"
  "total_delay (c # tr) = call_delay c + total_delay tr"
  "total_delay (tr @ tr') = total_delay tr + total_delay tr'"
  by (simp_all add: total_delay_def)

section \<open>The contract of a device library\<close>

text \<open>
  Every device library offers an initialisation that returns a status, and a clean-up, and
  remembers whether it is ready. \<open>init\<close> on a ready library changes nothing, a successful
  \<open>init\<close> makes it ready, a failed one does not, and \<open>cleanup\<close> makes it not ready.
\<close>

locale device_library =
  fixes init :: "'s \<Rightarrow> c_int \<times> 's"
    and cleanup :: "'s \<Rightarrow> 's"
    and ready :: "'s \<Rightarrow> bool"
  assumes init_again: "ready s \<Longrightarrow> init s = (0, s)"
    and init_status: "\<not> ready s \<Longrightarrow> ready (snd (init s)) \<longleftrightarrow> fst (init s) = 0"
    and init_codes: "fst (init s) = 0 \<or> fst (init s) = - 1"
    and cleanup_ready: "\<not> ready (cleanup s)"
    and cleanup_idle: "\<not> ready s \<Longrightarrow> cleanup s = s"
begin

lemma ready_after_init: "ready (snd (init s)) \<longleftrightarrow> fst (init s) = 0"
  using init_again [of s] init_status [of s] by (cases "ready s") auto

lemma cleanup_twice: "cleanup (cleanup s) = cleanup s"
  by (rule cleanup_idle) (rule cleanup_ready)

lemma init_twice: "fst (init s) = 0 \<Longrightarrow> init (snd (init s)) = (0, snd (init s))"
  by (rule init_again) (simp add: ready_after_init)

text \<open>
  A failed initialisation needs no clean-up: cleaning up afterwards changes nothing. The
  error paths of \<^verbatim>\<open>server_init\<close> rely on it.
\<close>

lemma failed_init_needs_no_cleanup: "fst (init s) \<noteq> 0 \<Longrightarrow> cleanup (snd (init s)) = snd (init s)"
  by (rule cleanup_idle) (simp add: ready_after_init)

end

end
