(* ===== verification/Led.thy ===== *)
theory Led
  imports Gpio
begin

text \<open>
  The LED library, \<^verbatim>\<open>led/led.c\<close>: a PWM pin driven active low, so that a PWM value of
  \<^verbatim>\<open>PWM_HIGH\<close> is dark and 0 is full brightness. The state is the library's static
  variables and the wiringPi calls it has made, in order. Messages to \<^verbatim>\<open>stderr\<close> and
  \<^verbatim>\<open>stdout\<close> are not modelled. Whether the LED then shines depends on how it is wired, which
  the code does not see and its README gives the other way round; both wirings are stated.
\<close>

section \<open>State and operations\<close>

definition PWM_LOW :: c_int where "PWM_LOW = 33"
definition PWM_MEDIUM :: c_int where "PWM_MEDIUM = 66"
definition PWM_HIGH :: c_int where "PWM_HIGH = 100"
definition PWM_RANGE :: c_int where "PWM_RANGE = 100"

definition LED_BRIGHTNESS_LOW :: c_int where "LED_BRIGHTNESS_LOW = 1"
definition LED_BRIGHTNESS_MEDIUM :: c_int where "LED_BRIGHTNESS_MEDIUM = 2"
definition LED_BRIGHTNESS_HIGH :: c_int where "LED_BRIGHTNESS_HIGH = 3"

lemmas led_consts = PWM_LOW_def PWM_MEDIUM_def PWM_HIGH_def PWM_RANGE_def
  LED_BRIGHTNESS_LOW_def LED_BRIGHTNESS_MEDIUM_def LED_BRIGHTNESS_HIGH_def

record LedPin =
  led_pin :: c_int

record led_lib =
  LED_PIN :: c_int
  led_is_initialized :: bool
  led_state :: bool
  led_calls :: "gpio_call list"

text \<open>The static variables as the program loads.\<close>

definition led_load :: led_lib where
  "led_load = \<lparr>LED_PIN = - 1, led_is_initialized = False, led_state = False, led_calls = []\<rparr>"

definition led_init :: "LedPin option \<Rightarrow> led_lib \<Rightarrow> c_int \<times> led_lib" where
  "led_init pin l =
     (if led_is_initialized l then (0, l)
      else case pin of
        None \<Rightarrow> (- 1, l)
      | Some p \<Rightarrow>
          if led_pin p < 0 then (- 1, l)
          else (0, l\<lparr>LED_PIN := led_pin p,
                     led_calls := led_calls l @
                       [PinMode (led_pin p) PWM_OUTPUT, PwmSetModeMS, PwmSetRange PWM_RANGE,
                        PwmSetClock 192, PwmWrite (led_pin p) PWM_HIGH],
                     led_state := False,
                     led_is_initialized := True\<rparr>))"

definition led_on :: "led_lib \<Rightarrow> c_int \<times> led_lib" where
  "led_on l =
     (if \<not> led_is_initialized l then (- 1, l)
      else (0, l\<lparr>led_calls := led_calls l @ [PwmWrite (LED_PIN l) 0], led_state := True\<rparr>))"

definition led_off :: "led_lib \<Rightarrow> c_int \<times> led_lib" where
  "led_off l =
     (if \<not> led_is_initialized l then (- 1, l)
      else (0, l\<lparr>led_calls := led_calls l @ [PwmWrite (LED_PIN l) PWM_HIGH],
                 led_state := False\<rparr>))"

text \<open>The \<^verbatim>\<open>switch\<close> of \<^verbatim>\<open>led_set_brightness\<close>; \<open>None\<close> is its default branch.\<close>

definition brightness_pwm :: "c_int \<Rightarrow> c_int option" where
  "brightness_pwm brightness =
     (if brightness = LED_BRIGHTNESS_LOW then Some (PWM_HIGH - PWM_LOW)
      else if brightness = LED_BRIGHTNESS_MEDIUM then Some (PWM_HIGH - PWM_MEDIUM)
      else if brightness = LED_BRIGHTNESS_HIGH then Some 0
      else None)"

definition led_set_brightness :: "c_int \<Rightarrow> led_lib \<Rightarrow> c_int \<times> led_lib" where
  "led_set_brightness brightness l =
     (if \<not> led_is_initialized l then (- 1, l)
      else case brightness_pwm brightness of
        None \<Rightarrow> (- 1, l)
      | Some pwm_value \<Rightarrow>
          (0, l\<lparr>led_calls := led_calls l @ [PwmWrite (LED_PIN l) pwm_value],
                led_state := True\<rparr>))"

definition led_is_on :: "led_lib \<Rightarrow> bool" where
  "led_is_on l = led_state l"

definition led_cleanup :: "led_lib \<Rightarrow> led_lib" where
  "led_cleanup l =
     (if \<not> led_is_initialized l then l
      else l\<lparr>led_calls := led_calls l @ [PwmWrite (LED_PIN l) PWM_HIGH],
             led_state := False,
             led_is_initialized := False\<rparr>)"

lemmas [lib_defs] = led_init_def led_on_def led_off_def led_set_brightness_def led_is_on_def
  led_cleanup_def brightness_pwm_def

section \<open>Any sequence of uses\<close>

datatype led_op =
    LedInit "LedPin option" | LedOn | LedOff | LedSetBrightness c_int | LedCleanup

fun led_apply :: "led_op \<Rightarrow> led_lib \<Rightarrow> led_lib" where
  "led_apply (LedInit p) l = snd (led_init p l)"
| "led_apply LedOn l = snd (led_on l)"
| "led_apply LedOff l = snd (led_off l)"
| "led_apply (LedSetBrightness b) l = snd (led_set_brightness b l)"
| "led_apply LedCleanup l = led_cleanup l"

definition led_run :: "led_op list \<Rightarrow> led_lib" where
  "led_run ops = fold led_apply ops led_load"

section \<open>The flag and the hardware agree\<close>

text \<open>
  Two ways to wire the LED: with its anode at the pin and its cathode at ground, as
  \<^verbatim>\<open>led/README.md\<close> draws it, or with its cathode at the pin. Whether a PWM value, the time
  out of \<open>PWM_RANGE\<close> that the pin is high, lights it depends on the wiring.
\<close>

datatype wiring = Anode_at_pin | Cathode_at_pin

fun lights :: "wiring \<Rightarrow> c_int \<Rightarrow> bool" where
  "lights Anode_at_pin v = (0 < v)"
| "lights Cathode_at_pin v = (v < PWM_RANGE)"

definition led_lit :: "wiring \<Rightarrow> led_lib \<Rightarrow> bool" where
  "led_lit w l =
     (case pwm_level (led_calls l) (LED_PIN l) of None \<Rightarrow> False | Some v \<Rightarrow> lights w v)"

text \<open>
  While the library is initialised its pin has been given a PWM value in range, and
  \<open>led_state\<close> says exactly whether that value is below \<open>PWM_HIGH\<close>. A library that is not
  initialised has left its pin at \<open>PWM_HIGH\<close>.
\<close>

definition led_inv :: "led_lib \<Rightarrow> bool" where
  "led_inv l \<longleftrightarrow>
     (led_is_initialized l \<longrightarrow>
        0 \<le> LED_PIN l \<and>
        (\<exists>v. pwm_level (led_calls l) (LED_PIN l) = Some v \<and> 0 \<le> v \<and> v \<le> PWM_HIGH \<and>
             (led_state l \<longleftrightarrow> v < PWM_HIGH))) \<and>
     (\<not> led_is_initialized l \<longrightarrow>
        \<not> led_state l \<and>
        (LED_PIN l = - 1 \<or> pwm_level (led_calls l) (LED_PIN l) = Some PWM_HIGH))"

declare led_inv_def [inv_defs]

lemma led_inv_load: "led_inv led_load"
  by (simp add: led_inv_def led_load_def)

lemma led_inv_init: "led_inv l \<Longrightarrow> led_inv (snd (led_init p l))"
  by (auto simp: led_inv_def led_init_def led_consts split: option.splits)

lemma led_inv_on: "led_inv l \<Longrightarrow> led_inv (snd (led_on l))"
  by (auto simp: led_inv_def led_on_def led_consts)

lemma led_inv_off: "led_inv l \<Longrightarrow> led_inv (snd (led_off l))"
  by (auto simp: led_inv_def led_off_def led_consts)

lemma led_inv_set_brightness: "led_inv l \<Longrightarrow> led_inv (snd (led_set_brightness b l))"
  by (auto simp: led_inv_def led_set_brightness_def brightness_pwm_def led_consts
      split: option.splits)

lemma led_inv_cleanup: "led_inv l \<Longrightarrow> led_inv (led_cleanup l)"
  by (auto simp: led_inv_def led_cleanup_def led_consts)

lemmas led_inv_intros = led_inv_load led_inv_init led_inv_on led_inv_off led_inv_set_brightness
  led_inv_cleanup

lemma led_inv_apply: "led_inv l \<Longrightarrow> led_inv (led_apply op l)"
  by (cases op) (simp_all add: led_inv_intros)

lemma led_inv_fold: "led_inv l \<Longrightarrow> led_inv (fold led_apply ops l)"
  by (induction ops arbitrary: l) (simp_all add: led_inv_apply)

interpretation led_dev: device_library "led_init p" led_cleanup led_is_initialized
  by unfold_locales (auto simp: led_init_def led_cleanup_def split: option.splits)

section \<open>Properties\<close>

lemma led_inv_lit: "led_inv l \<Longrightarrow> led_is_initialized l \<Longrightarrow> led_lit Cathode_at_pin l \<longleftrightarrow> led_state l"
  by (auto simp: led_inv_def led_lit_def led_consts)

lemma led_inv_off_lit:
  "led_inv l \<Longrightarrow> led_is_initialized l \<Longrightarrow> \<not> led_state l \<Longrightarrow> led_lit Anode_at_pin l"
  by (auto simp: led_inv_def led_lit_def led_consts)

text \<open>
  C28. After any sequence of library calls, with any arguments and in any order, an initialised
  LED library has given its pin a PWM value in range, and \<^verbatim>\<open>led_is_on\<close> tells exactly whether
  an LED with its cathode at the pin is lit. With the wiring that \<^verbatim>\<open>led/README.md\<close> draws, the
  anode at the pin, the LED shines whenever \<^verbatim>\<open>led_is_on\<close> says that it is off, and
  \<^verbatim>\<open>led_on\<close> makes it dark.
\<close>

theorem led_is_on_exact:
  assumes "led_is_initialized (led_run ops)"
  shows "(\<exists>v. pwm_level (led_calls (led_run ops)) (LED_PIN (led_run ops)) = Some v \<and>
        0 \<le> v \<and> v \<le> PWM_RANGE \<and> (led_is_on (led_run ops) \<longleftrightarrow> v < PWM_HIGH)) \<and>
     (led_is_on (led_run ops) \<longleftrightarrow> led_lit Cathode_at_pin (led_run ops)) \<and>
     (\<not> led_is_on (led_run ops) \<longrightarrow> led_lit Anode_at_pin (led_run ops)) \<and>
     led_is_on (led_run (ops @ [LedOn])) \<and> \<not> led_lit Anode_at_pin (led_run (ops @ [LedOn]))"
proof -
  have inv: "led_inv (led_run ops)" using led_inv_fold [OF led_inv_load] by (simp add: led_run_def)
  have on: "led_run (ops @ [LedOn]) = snd (led_on (led_run ops))" by (simp add: led_run_def)
  have "led_is_on (snd (led_on (led_run ops)))" "\<not> led_lit Anode_at_pin (snd (led_on (led_run ops)))"
    using assms by (simp_all add: led_on_def led_is_on_def led_lit_def)
  with on inv assms led_inv_lit [OF inv assms] led_inv_off_lit [OF inv assms] show ?thesis
    by (auto simp: led_inv_def led_is_on_def led_consts)
qed

theorem led_is_on_exact_witness:
  "\<exists>v. pwm_level (led_calls (led_run [LedInit (Some \<lparr>led_pin = 18\<rparr>), LedSetBrightness 2])) 18 = Some v \<and>
     0 \<le> v \<and> v < PWM_HIGH"
  using led_is_on_exact [of "[LedInit (Some \<lparr>led_pin = 18\<rparr>), LedSetBrightness 2]"]
  by (auto simp: led_run_def led_load_def lib_defs led_consts)

text \<open>
  On an initialised library a higher brightness level gives a lower PWM value, and every level
  one below that of off.
\<close>

lemma led_brightness_monotone:
  assumes "led_is_initialized l" "1 \<le> b" "b < b'" "b' \<le> 3"
  shows "fst (led_set_brightness b l) = 0 \<and> fst (led_set_brightness b' l) = 0 \<and>
     (\<exists>v v'. pwm_level (led_calls (snd (led_set_brightness b l))) (LED_PIN l) = Some v \<and>
        pwm_level (led_calls (snd (led_set_brightness b' l))) (LED_PIN l) = Some v' \<and>
        0 \<le> v' \<and> v' < v \<and> v < PWM_HIGH)"
proof -
  have "b = 1 \<and> b' = 2 \<or> b = 1 \<and> b' = 3 \<or> b = 2 \<and> b' = 3" using assms by linarith
  with assms(1) show ?thesis by (auto simp: lib_defs led_consts)
qed

end
