(* ===== verification/Light_Sensor.thy ===== *)
theory Light_Sensor
  imports Gpio
begin

text \<open>
  The light sensor library, \<^verbatim>\<open>light_sensor/light_sensor.c\<close>. What \<^verbatim>\<open>digitalRead\<close>
  returns is an argument, \<open>level\<close>.
\<close>

record LightSensorPin =
  sensor_pin :: c_int

record sensor_lib =
  SENSOR_PIN :: c_int
  sensor_is_initialized :: bool
  sensor_calls :: "gpio_call list"

definition sensor_load :: sensor_lib where
  "sensor_load = \<lparr>SENSOR_PIN = - 1, sensor_is_initialized = False, sensor_calls = []\<rparr>"

definition light_sensor_init :: "LightSensorPin option \<Rightarrow> sensor_lib \<Rightarrow> c_int \<times> sensor_lib" where
  "light_sensor_init pin s =
     (if sensor_is_initialized s then (0, s)
      else case pin of
        None \<Rightarrow> (- 1, s)
      | Some p \<Rightarrow>
          if sensor_pin p < 0 then (- 1, s)
          else (0, s\<lparr>SENSOR_PIN := sensor_pin p,
                     sensor_calls := sensor_calls s @ [PinMode (sensor_pin p) INPUT],
                     sensor_is_initialized := True\<rparr>))"

definition light_sensor_read :: "c_int \<Rightarrow> sensor_lib \<Rightarrow> c_int \<times> sensor_lib" where
  "light_sensor_read level s =
     (if \<not> sensor_is_initialized s then (- 1, s)
      else (level, s\<lparr>sensor_calls := sensor_calls s @ [DigitalRead (SENSOR_PIN s)]\<rparr>))"

definition light_sensor_is_bright :: "c_int \<Rightarrow> sensor_lib \<Rightarrow> bool \<times> sensor_lib" where
  "light_sensor_is_bright level s =
     (let (value, s') = light_sensor_read level s
      in if value = - 1 then (False, s') else (value = 0, s'))"

definition light_sensor_cleanup :: "sensor_lib \<Rightarrow> sensor_lib" where
  "light_sensor_cleanup s =
     (if \<not> sensor_is_initialized s then s else s\<lparr>sensor_is_initialized := False\<rparr>)"

lemmas [lib_defs] = light_sensor_init_def light_sensor_read_def light_sensor_is_bright_def
  light_sensor_cleanup_def

text \<open>A ready sensor reports bright exactly when its pin reads low.\<close>

lemma is_bright_ready:
  "sensor_is_initialized s \<Longrightarrow> fst (light_sensor_is_bright level s) \<longleftrightarrow> level = 0"
  by (simp add: light_sensor_is_bright_def light_sensor_read_def)

lemma is_bright_not_ready: "\<not> sensor_is_initialized s \<Longrightarrow> light_sensor_is_bright level s = (False, s)"
  by (simp add: light_sensor_is_bright_def light_sensor_read_def)

lemma is_bright_keeps_ready [simp]:
  "sensor_is_initialized (snd (light_sensor_is_bright level s)) = sensor_is_initialized s"
  by (simp add: light_sensor_is_bright_def light_sensor_read_def)

interpretation sensor_dev:
  device_library "light_sensor_init p" light_sensor_cleanup sensor_is_initialized
  by unfold_locales (auto simp: light_sensor_init_def light_sensor_cleanup_def split: option.splits)

end
