(* ===== verification/Segment7.thy ===== *)
theory Segment7
  imports Gpio
begin

text \<open>
  The 7-segment library, \<^verbatim>\<open>7segment/7segment.c\<close>: four output pins that carry a BCD digit
  to a 7447 decoder, and a detached counting thread that shows \<open>n, n - 1, ..., 0\<close>, one per
  second, while the shared flag \<^verbatim>\<open>is_counting\<close> stays set.

  \<open>seg7_lib\<close> holds the library's static variables and the wiringPi calls made. The
  counting thread is a machine with one step per critical section or blocking call
  (\<open>count_step\<close>); \<open>seg7_step\<close> interleaves any number of such threads with the
  library's entry points, where \<^verbatim>\<open>seg7_counting\<close> is two steps: it releases the mutex between
  claiming the flag and creating the thread.
\<close>

section \<open>State and operations\<close>

text \<open>The BCD table, least significant bit (pin A) first.\<close>

definition BCD_VALUES :: "c_int list list" where
  "BCD_VALUES =
     [[0, 0, 0, 0],
      [1, 0, 0, 0],
      [0, 1, 0, 0],
      [1, 1, 0, 0],
      [0, 0, 1, 0],
      [1, 0, 1, 0],
      [0, 1, 1, 0],
      [1, 1, 1, 0],
      [0, 0, 0, 1],
      [1, 0, 0, 1]]"

record Seg7Pins =
  pin_a :: c_int
  pin_b :: c_int
  pin_c :: c_int
  pin_d :: c_int

record seg7_lib =
  is_counting :: bool
  seg7_is_initialized :: bool
  PIN_A :: c_int
  PIN_B :: c_int
  PIN_C :: c_int
  PIN_D :: c_int
  seg7_calls :: "gpio_call list"

definition seg7_load :: seg7_lib where
  "seg7_load =
     \<lparr>is_counting = False, seg7_is_initialized = False,
      PIN_A = - 1, PIN_B = - 1, PIN_C = - 1, PIN_D = - 1, seg7_calls = []\<rparr>"

definition write_pins :: "c_int list \<Rightarrow> seg7_lib \<Rightarrow> gpio_call list" where
  "write_pins bits s =
     [DigitalWrite (PIN_A s) (bits ! 0), DigitalWrite (PIN_B s) (bits ! 1),
      DigitalWrite (PIN_C s) (bits ! 2), DigitalWrite (PIN_D s) (bits ! 3)]"

definition output_bcd :: "c_int \<Rightarrow> seg7_lib \<Rightarrow> seg7_lib" where
  "output_bcd num s =
     (if num < 0 \<or> num > 9 then s
      else s\<lparr>seg7_calls := seg7_calls s @ write_pins (BCD_VALUES ! nat num) s\<rparr>)"

definition seg7_init :: "Seg7Pins option \<Rightarrow> seg7_lib \<Rightarrow> c_int \<times> seg7_lib" where
  "seg7_init pins s =
     (if seg7_is_initialized s then (0, s)
      else case pins of
        None \<Rightarrow> (- 1, s)
      | Some p \<Rightarrow>
          let s1 = s\<lparr>PIN_A := pin_a p, PIN_B := pin_b p, PIN_C := pin_c p, PIN_D := pin_d p\<rparr>
          in (0, s1\<lparr>seg7_calls := seg7_calls s @
                      [PinMode (PIN_A s1) OUTPUT, PinMode (PIN_B s1) OUTPUT,
                       PinMode (PIN_C s1) OUTPUT, PinMode (PIN_D s1) OUTPUT] @
                      write_pins [0, 0, 0, 0] s1,
                    seg7_is_initialized := True\<rparr>))"

definition seg7_setnum :: "c_int \<Rightarrow> seg7_lib \<Rightarrow> c_int \<times> seg7_lib" where
  "seg7_setnum num s =
     (if \<not> seg7_is_initialized s then (- 1, s)
      else if num < 0 \<or> num > 9 then (- 1, s)
      else (0, output_bcd num s))"

text \<open>
  \<^verbatim>\<open>seg7_counting\<close> returns its status, the new state and, when it succeeds, the parameters
  of the counting thread it has started. The thread is detached and never joined.
\<close>

record CountingParams =
  start_seconds :: c_int
  callback :: bool  \<comment> \<open>whether the function pointer is not NULL\<close>

text \<open>
  The call in its two parts, because the mutex is released in between: the checks up to the
  setting of \<^verbatim>\<open>is_counting\<close> (\<open>None\<close> when the call returns -1), and the rest.
\<close>

definition seg7_counting_claim :: "c_int \<Rightarrow> seg7_lib \<Rightarrow> seg7_lib option" where
  "seg7_counting_claim start s =
     (if \<not> seg7_is_initialized s then None
      else if start < 0 \<or> start > 9 then None
      else if is_counting s then None
      else Some (s\<lparr>is_counting := True\<rparr>))"

definition seg7_counting_spawn ::
  "os_env \<Rightarrow> c_int \<Rightarrow> bool \<Rightarrow> seg7_lib \<Rightarrow> c_int \<times> seg7_lib \<times> CountingParams option" where
  "seg7_counting_spawn env start cb s =
     (if \<not> malloc_ok env then (- 1, s\<lparr>is_counting := False\<rparr>, None)
      else let params = \<lparr>start_seconds = start, callback = cb\<rparr>
           in if \<not> thread_ok env then (- 1, s\<lparr>is_counting := False\<rparr>, None)
              else (0, s, Some params))"

definition seg7_counting ::
  "os_env \<Rightarrow> c_int \<Rightarrow> bool \<Rightarrow> seg7_lib \<Rightarrow> c_int \<times> seg7_lib \<times> CountingParams option" where
  "seg7_counting env start cb s =
     (case seg7_counting_claim start s of
        None \<Rightarrow> (- 1, s, None)
      | Some s1 \<Rightarrow> seg7_counting_spawn env start cb s1)"

lemmas seg7_counting_defs = seg7_counting_def seg7_counting_claim_def seg7_counting_spawn_def

definition seg7_is_counting :: "seg7_lib \<Rightarrow> bool" where
  "seg7_is_counting s = is_counting s"

definition seg7_stop_counting :: "seg7_lib \<Rightarrow> c_int \<times> seg7_lib" where
  "seg7_stop_counting s =
     (if \<not> is_counting s then (0, s) else (0, s\<lparr>is_counting := False\<rparr>))"

text \<open>
  \<^verbatim>\<open>seg7_wait_counting\<close> polls until the flag is clear; \<open>seen k\<close> is what its \<open>k\<close>-th
  poll finds. The result is the status and the poll that ended the loop; a loop that never
  ends is \<open>None\<close>.
\<close>

partial_function (option) seg7_wait_counting :: "(nat \<Rightarrow> bool) \<Rightarrow> nat \<Rightarrow> (c_int \<times> nat) option" where
  "seg7_wait_counting seen k =
     (if seen k then seg7_wait_counting seen (Suc k) else Some (0, k))"

definition seg7_cleanup :: "seg7_lib \<Rightarrow> seg7_lib" where
  "seg7_cleanup s =
     (if \<not> seg7_is_initialized s then s
      else let s1 = snd (seg7_stop_counting s)
           in s1\<lparr>seg7_calls := seg7_calls s1 @ write_pins [0, 0, 0, 0] s1,
                 seg7_is_initialized := False\<rparr>)"

lemmas [lib_defs] = output_bcd_def seg7_init_def seg7_setnum_def seg7_counting_defs
  seg7_is_counting_def seg7_stop_counting_def seg7_cleanup_def

section \<open>The counting thread\<close>

text \<open>
  Where a counting thread is in \<^verbatim>\<open>counting_thread_func\<close>: about to take the mutex and test
  the flag in iteration \<open>i\<close>, past the test and about to show \<open>i\<close>, asleep after showing
  \<open>i\<close>, past the loop and about to clear the flag, about to call the callback, returned.
\<close>

datatype counting_pc = Check c_int | Show c_int | Nap c_int | Finish | Notify | Ended

record counting_thread =
  thread_pc :: counting_pc
  thread_callback :: bool

text \<open>The loop head \<^verbatim>\<open>for (...; i >= 0; ...)\<close> with counter \<open>i\<close>.\<close>

definition count_head :: "c_int \<Rightarrow> counting_pc" where
  "count_head i = (if i \<ge> 0 then Check i else Finish)"

definition counting_thread_start :: "CountingParams \<Rightarrow> counting_thread" where
  "counting_thread_start p =
     \<lparr>thread_pc = count_head (start_seconds p), thread_callback = callback p\<rparr>"

fun count_step :: "bool \<Rightarrow> counting_pc \<Rightarrow> seg7_lib \<Rightarrow> counting_pc \<times> seg7_lib" where
  "count_step cb (Check i) s = (if \<not> is_counting s then (Ended, s) else (Show i, s))"
| "count_step cb (Show i) s =
     (if i > 0 then Nap i else count_head (i - 1), output_bcd i s)"
| "count_step cb (Nap i) s = (count_head (i - 1), s)"
| "count_step cb Finish s = (if cb then Notify else Ended, s\<lparr>is_counting := False\<rparr>)"
| "count_step cb Notify s = (Ended, s)"
| "count_step cb Ended s = (Ended, s)"

text \<open>A thread running alone: \<open>k\<close> of its steps.\<close>

definition count_steps :: "bool \<Rightarrow> nat \<Rightarrow> counting_pc \<times> seg7_lib \<Rightarrow> counting_pc \<times> seg7_lib" where
  "count_steps cb k = ((\<lambda>(pc, s). count_step cb pc s) ^^ k)"

text \<open>A thread still counts until it has cleared the flag or returned.\<close>

fun counts :: "counting_pc \<Rightarrow> bool" where
  "counts Notify = False"
| "counts Ended = False"
| "counts _ = True"

section \<open>Interleavings\<close>

record seg7_sys =
  seg7 :: seg7_lib
  counters :: "counting_thread list"
  starting :: "(c_int \<times> bool) list"  \<comment> \<open>calls of seg7_counting between their two parts\<close>

definition seg7_boot :: seg7_sys where
  "seg7_boot = \<lparr>seg7 = seg7_load, counters = [], starting = []\<rparr>"

text \<open>
  One step of the library in use: a call of an entry point, one of the two parts of
  \<^verbatim>\<open>seg7_counting\<close>, or a step of counting thread \<open>j\<close>. The label \<open>Stop\<close> is that of the calls
  that stop a running countdown.
\<close>

datatype seg7_event = Entry | Claim | Spawn | Stop | Tick nat

inductive seg7_step :: "seg7_sys \<Rightarrow> seg7_event \<Rightarrow> seg7_sys \<Rightarrow> bool" where
  do_init: "seg7_step S Entry (S\<lparr>seg7 := snd (seg7_init pins (seg7 S))\<rparr>)"
| do_setnum: "seg7_step S Entry (S\<lparr>seg7 := snd (seg7_setnum n (seg7 S))\<rparr>)"
| do_claim: "seg7_counting_claim n (seg7 S) = Some s' \<Longrightarrow>
    seg7_step S Claim (S\<lparr>seg7 := s', starting := starting S @ [(n, cb)]\<rparr>)"
| do_claim_refused: "seg7_counting_claim n (seg7 S) = None \<Longrightarrow> seg7_step S Claim S"
| do_spawn: "starting S = us @ (n, cb) # vs \<Longrightarrow>
    seg7_counting_spawn env n cb (seg7 S) = (r, s', Some p) \<Longrightarrow>
    seg7_step S Spawn (S\<lparr>seg7 := s', counters := counters S @ [counting_thread_start p], starting := us @ vs\<rparr>)"
| do_spawn_failed: "starting S = us @ (n, cb) # vs \<Longrightarrow>
    seg7_counting_spawn env n cb (seg7 S) = (r, s', None) \<Longrightarrow>
    seg7_step S Spawn (S\<lparr>seg7 := s', starting := us @ vs\<rparr>)"
| do_stop: "seg7_step S Stop (S\<lparr>seg7 := snd (seg7_stop_counting (seg7 S))\<rparr>)"
| do_cleanup: "seg7_step S Stop (S\<lparr>seg7 := seg7_cleanup (seg7 S)\<rparr>)"
| do_tick: "j < length (counters S) \<Longrightarrow>
    count_step (thread_callback (counters S ! j)) (thread_pc (counters S ! j)) (seg7 S) = (pc', s') \<Longrightarrow>
    seg7_step S (Tick j)
      (S\<lparr>seg7 := s', counters := (counters S)[j := (counters S ! j)\<lparr>thread_pc := pc'\<rparr>]\<rparr>)"

inductive seg7_trace :: "seg7_sys \<Rightarrow> seg7_event list \<Rightarrow> seg7_sys \<Rightarrow> bool" where
  trace_nil: "seg7_trace S [] S"
| trace_snoc: "seg7_trace S es T \<Longrightarrow> seg7_step T e U \<Longrightarrow> seg7_trace S (es @ [e]) U"

inductive_cases seg7_stepE: "seg7_step S e T"

definition counting_threads :: "seg7_sys \<Rightarrow> counting_thread list" where
  "counting_threads S = filter (\<lambda>t. counts (thread_pc t)) (counters S)"

section \<open>Displaying a digit\<close>

text \<open>The number that the levels of the four pins spell in binary, pin A lowest.\<close>

definition shown_number :: "seg7_lib \<Rightarrow> c_int option" where
  "shown_number s =
     (let lvl = digital_level (seg7_calls s)
      in case (lvl (PIN_A s), lvl (PIN_B s), lvl (PIN_C s), lvl (PIN_D s)) of
           (Some a, Some b, Some c, Some d) \<Rightarrow> Some (a + 2 * b + 4 * c + 8 * d)
         | _ \<Rightarrow> None)"

lemma BCD_VALUES_bits:
  assumes "n < 10"
  shows "BCD_VALUES ! n = map (\<lambda>k. int (n div 2 ^ k mod 2)) [0, 1, 2, 3]"
proof -
  have "\<forall>n \<in> set [0..<10]. BCD_VALUES ! n = map (\<lambda>k. int (n div 2 ^ k mod 2)) [0, 1, 2, 3]"
    by code_simp
  with assms show ?thesis by simp
qed

lemma BCD_VALUES_spell:
  assumes "n < 10"
  shows "BCD_VALUES ! n ! 0 + 2 * BCD_VALUES ! n ! 1 + 4 * BCD_VALUES ! n ! 2 +
     8 * BCD_VALUES ! n ! 3 = int n"
proof -
  have "\<forall>n \<in> set [0..<10]. BCD_VALUES ! n ! 0 + 2 * BCD_VALUES ! n ! 1 +
      4 * BCD_VALUES ! n ! 2 + 8 * BCD_VALUES ! n ! 3 = int n"
    by code_simp
  with assms show ?thesis by simp
qed

lemma output_bcd_frame [simp]:
  "is_counting (output_bcd n s) = is_counting s"
  "seg7_is_initialized (output_bcd n s) = seg7_is_initialized s"
  "PIN_A (output_bcd n s) = PIN_A s" "PIN_B (output_bcd n s) = PIN_B s"
  "PIN_C (output_bcd n s) = PIN_C s" "PIN_D (output_bcd n s) = PIN_D s"
  by (simp_all add: output_bcd_def)

lemma shown_number_output_bcd:
  assumes "distinct [PIN_A s, PIN_B s, PIN_C s, PIN_D s]" "0 \<le> n" "n \<le> 9"
  shows "shown_number (output_bcd n s) = Some n"
proof -
  have "nat n < 10" using assms by simp
  from BCD_VALUES_spell [OF this] assms show ?thesis
    by (simp add: shown_number_def output_bcd_def write_pins_def)
qed

section \<open>One countdown\<close>

lemma count_steps_simps [simp]:
  "count_steps cb 0 c = c"
  "count_steps cb (Suc k) (pc, s) = count_steps cb k (count_step cb pc s)"
  by (simp_all add: count_steps_def funpow_swap1)

lemma count_steps_add: "count_steps cb (j + k) c = count_steps cb k (count_steps cb j c)"
  by (simp add: count_steps_def funpow_add add.commute [of j k])

definition digit_calls :: "seg7_lib \<Rightarrow> nat \<Rightarrow> gpio_call list" where
  "digit_calls s i = write_pins (BCD_VALUES ! i) s"

lemma digit_calls_cong [simp]:
  "digit_calls (s\<lparr>seg7_calls := x\<rparr>) = digit_calls s"
  "digit_calls (s\<lparr>is_counting := f\<rparr>) = digit_calls s"
  by (simp_all add: digit_calls_def write_pins_def fun_eq_iff)

lemma output_bcd_digit: "n \<le> 9 \<Longrightarrow>
    output_bcd (int n) s = s\<lparr>seg7_calls := seg7_calls s @ digit_calls s n\<rparr>"
  by (simp add: output_bcd_def digit_calls_def)

lemma count_alone:
  assumes "n \<le> 9" "is_counting s"
  shows "count_steps cb (3 * n + 3) (Check (int n), s) =
     (if cb then Notify else Ended,
      s\<lparr>seg7_calls := seg7_calls s @ concat (map (digit_calls s) (rev [0..<Suc n])),
        is_counting := False\<rparr>)"
  using assms
proof (induction n arbitrary: s)
  case 0
  then show ?case
    by (simp add: numeral_3_eq_3 count_head_def output_bcd_digit [of 0, simplified])
next
  case (Suc n)
  let ?s = "s\<lparr>seg7_calls := seg7_calls s @ digit_calls s (Suc n)\<rparr>"
  have head: "count_head (int n) = Check (int n)" by (simp add: count_head_def)
  have "count_steps cb 3 (Check (int (Suc n)), s) = (Check (int n), ?s)"
    using Suc.prems output_bcd_digit [of "Suc n" s] head by (simp add: numeral_3_eq_3)
  moreover have "count_steps cb (3 * n + 3) (Check (int n), ?s) =
     (if cb then Notify else Ended,
      ?s\<lparr>seg7_calls := seg7_calls ?s @ concat (map (digit_calls ?s) (rev [0..<Suc n])),
        is_counting := False\<rparr>)"
    using Suc.prems by (intro Suc.IH) auto
  ultimately show ?case
    using count_steps_add [of cb 3 "3 * n + 3" "(Check (int (Suc n)), s)"] by simp
qed

lemma count_stopped_check: "\<not> is_counting s \<Longrightarrow> count_steps cb 1 (Check i, s) = (Ended, s)"
  by simp

lemma count_stopped_nap:
  "\<not> is_counting s \<Longrightarrow> 0 < i \<Longrightarrow> count_steps cb 2 (Nap i, s) = (Ended, s)"
  by (simp add: numeral_2_eq_2 count_head_def)

lemma count_steps_Ended [simp]: "count_steps cb k (Ended, s) = (Ended, s)"
  by (induction k) simp_all

section \<open>Waiting for a countdown\<close>

lemma seg7_wait_counting_polls:
  "(\<forall>i < n. seen (k + i)) \<Longrightarrow> seg7_wait_counting seen k = seg7_wait_counting seen (k + n)"
proof (induction n arbitrary: k)
  case (Suc n)
  then have "seen k" "\<forall>i < n. seen (Suc k + i)" by (auto dest: spec [of _ 0] spec [of _ "Suc _"])
  then show ?case
    using Suc.IH [of "Suc k"] by (simp add: seg7_wait_counting.simps [of seen k])
qed simp

section \<open>Any number of countdowns\<close>

lemma counts_count_head [simp]: "counts (count_head i)"
  by (simp add: count_head_def)

lemma count_step_cases:
  assumes "count_step cb pc s = (pc', s')"
  shows "pc = Finish \<and> \<not> counts pc' \<and> \<not> is_counting s' \<or>
     counts pc \<and> \<not> is_counting s \<and> pc' = Ended \<and> s' = s \<or>
     counts pc' = counts pc \<and> is_counting s' = is_counting s"
  using assms by (cases pc) (auto split: if_splits)

text \<open>The counting threads and the calls that are about to start one.\<close>

definition counting_number :: "seg7_sys \<Rightarrow> nat" where
  "counting_number S = length (counting_threads S) + length (starting S)"

lemma counting_number_simps [simp]:
  "counting_number (S\<lparr>seg7 := s\<rparr>) = counting_number S"
  "counting_number (S\<lparr>seg7 := s, counters := counters S @ [t]\<rparr>) =
     counting_number S + of_bool (counts (thread_pc t))"
  "counting_number (S\<lparr>seg7 := s, starting := starting S @ [x]\<rparr>) = Suc (counting_number S)"
  by (simp_all add: counting_number_def counting_threads_def)

lemma counting_number_tick:
  assumes "j < length (counters S)"
  shows "counting_number (S\<lparr>seg7 := s, counters := (counters S)[j := (counters S ! j)\<lparr>thread_pc := pc'\<rparr>]\<rparr>) +
     of_bool (counts (thread_pc (counters S ! j))) = counting_number S + of_bool (counts pc')"
  using length_filter_update [OF assms, of "\<lambda>t. counts (thread_pc t)" "(counters S ! j)\<lparr>thread_pc := pc'\<rparr>"]
  by (simp add: counting_number_def counting_threads_def)

lemma counting_number_spawn:
  assumes "starting S = us @ x # vs"
  shows "counting_number (S\<lparr>seg7 := s, counters := counters S @ [t], starting := us @ vs\<rparr>) + 1 =
       counting_number S + of_bool (counts (thread_pc t))"
    and "counting_number (S\<lparr>seg7 := s, starting := us @ vs\<rparr>) + 1 = counting_number S"
  using assms by (simp_all add: counting_number_def counting_threads_def)

text \<open>The flag is never left set with nothing to clear it.\<close>

definition flag_owned :: "seg7_sys \<Rightarrow> bool" where
  "flag_owned S \<longleftrightarrow> (is_counting (seg7 S) \<longrightarrow> 0 < counting_number S)"

text \<open>As long as no countdown has been stopped, the flag tells exactly whether one runs.\<close>

definition flag_exact :: "seg7_sys \<Rightarrow> bool" where
  "flag_exact S \<longleftrightarrow> counting_number S = of_bool (is_counting (seg7 S))"

declare flag_owned_def [inv_defs] flag_exact_def [inv_defs]

lemma seg7_init_is_counting [simp]: "is_counting (snd (seg7_init p s)) = is_counting s"
  by (auto simp: seg7_init_def Let_def split: option.splits)

lemma seg7_setnum_is_counting [simp]: "is_counting (snd (seg7_setnum n s)) = is_counting s"
  by (auto simp: seg7_setnum_def)

lemma seg7_stop_counting_is_counting [simp]: "\<not> is_counting (snd (seg7_stop_counting s))"
  by (simp add: seg7_stop_counting_def)

lemma seg7_cleanup_is_counting: "is_counting (seg7_cleanup s) \<Longrightarrow> is_counting s"
  by (auto simp: seg7_cleanup_def seg7_stop_counting_def Let_def split: if_splits)

lemma seg7_counting_started:
  assumes "seg7_counting env n cb s = (r, s', Some p)"
  shows "r = 0" "s' = s\<lparr>is_counting := True\<rparr>" "\<not> is_counting s" "0 \<le> n" "n \<le> 9"
    "seg7_is_initialized s" "p = \<lparr>start_seconds = n, callback = cb\<rparr>"
  using assms by (auto simp: seg7_counting_defs Let_def split: if_splits)

lemma seg7_counting_refused:
  assumes "seg7_counting env n cb s = (r, s', None)"
  shows "r = - 1" "s' = s"
  using assms by (auto simp: seg7_counting_defs Let_def split: if_splits)

lemma seg7_counting_claimed:
  "seg7_counting_claim n s = Some s' \<Longrightarrow> \<not> is_counting s \<and> s' = s\<lparr>is_counting := True\<rparr>"
  by (auto simp: seg7_counting_claim_def split: if_splits)

lemma seg7_counting_spawned:
  "seg7_counting_spawn env n cb s = (r, s', Some p) \<Longrightarrow> s' = s"
  "seg7_counting_spawn env n cb s = (r, s', None) \<Longrightarrow> s' = s\<lparr>is_counting := False\<rparr>"
  by (auto simp: seg7_counting_spawn_def Let_def split: if_splits)

lemma counts_start [simp]: "counts (thread_pc (counting_thread_start p))"
  by (simp add: counting_thread_start_def)

lemma seg7_step_flag_owned: "seg7_step S e T \<Longrightarrow> flag_owned S \<Longrightarrow> flag_owned T"
proof (induction rule: seg7_step.induct)
  case (do_tick j S pc' s')
  with counting_number_tick [OF do_tick(1), where s = s' and pc' = pc'] count_step_cases [OF do_tick(2)]
  show ?case by (auto simp: flag_owned_def split: if_splits)
next
  case (do_spawn S us n cb vs env r s' p)
  with counting_number_spawn(1) [OF do_spawn(1), where s = s' and t = "counting_thread_start p"]
    seg7_counting_spawned(1) [OF do_spawn(2)]
  show ?case by (simp add: flag_owned_def)
next
  case (do_spawn_failed S us n cb vs env r s')
  with seg7_counting_spawned(2) [OF do_spawn_failed(2)] show ?case by (simp add: flag_owned_def)
qed (auto simp: flag_owned_def dest: seg7_counting_claimed seg7_cleanup_is_counting)

lemma seg7_step_flag_exact: "seg7_step S e T \<Longrightarrow> e \<noteq> Stop \<Longrightarrow> flag_exact S \<Longrightarrow> flag_exact T"
proof (induction rule: seg7_step.induct)
  case (do_tick j S pc' s')
  with counting_number_tick [OF do_tick(1), where s = s' and pc' = pc'] count_step_cases [OF do_tick(2)]
  show ?case by (cases "is_counting (seg7 S)") (auto simp: flag_exact_def split: if_splits)
next
  case (do_spawn S us n cb vs env r s' p)
  with counting_number_spawn(1) [OF do_spawn(1), where s = s' and t = "counting_thread_start p"]
    seg7_counting_spawned(1) [OF do_spawn(2)]
  show ?case by (simp add: flag_exact_def)
next
  case (do_spawn_failed S us n cb vs env r s')
  with counting_number_spawn(2) [OF do_spawn_failed(1), where s = s']
    seg7_counting_spawned(2) [OF do_spawn_failed(2)]
  show ?case by (cases "is_counting (seg7 S)") (simp_all add: flag_exact_def)
qed (auto simp: flag_exact_def dest: seg7_counting_claimed)

lemma flag_boot: "flag_owned seg7_boot" "flag_exact seg7_boot"
  by (simp_all add: flag_owned_def flag_exact_def counting_number_def counting_threads_def
      seg7_boot_def seg7_load_def)

lemma seg7_trace_flag_owned: "seg7_trace S es T \<Longrightarrow> flag_owned S \<Longrightarrow> flag_owned T"
  by (induction rule: seg7_trace.induct) (auto intro: seg7_step_flag_owned)

lemma seg7_trace_flag_exact:
  "seg7_trace S es T \<Longrightarrow> Stop \<notin> set es \<Longrightarrow> flag_exact S \<Longrightarrow> flag_exact T"
  by (induction rule: seg7_trace.induct) (auto intro: seg7_step_flag_exact)

interpretation seg7_dev: device_library "seg7_init p" seg7_cleanup seg7_is_initialized
  by unfold_locales
    (auto simp: seg7_init_def seg7_cleanup_def seg7_stop_counting_def Let_def split: option.splits)

section \<open>Properties\<close>

text \<open>
  C29. On an initialised display with four different pins, \<^verbatim>\<open>seg7_setnum\<close> puts the binary
  digits of any number from 0 to 9 on the pins; any other number is refused and nothing is
  written.
\<close>

theorem seg7_setnum_shows:
  assumes "seg7_is_initialized s" "distinct [PIN_A s, PIN_B s, PIN_C s, PIN_D s]"
  shows "if 0 \<le> n \<and> n \<le> 9
     then fst (seg7_setnum n s) = 0 \<and> shown_number (snd (seg7_setnum n s)) = Some n
     else seg7_setnum n s = (- 1, s)"
  using assms shown_number_output_bcd [of s n] by (auto simp: seg7_setnum_def)

definition seg7_demo :: seg7_lib where
  "seg7_demo =
     snd (seg7_init (Some \<lparr>pin_a = 23, pin_b = 18, pin_c = 15, pin_d = 14\<rparr>) seg7_load)"

lemma seg7_demo_simps [simp]:
  "seg7_is_initialized seg7_demo" "\<not> is_counting seg7_demo"
  "PIN_A seg7_demo = 23" "PIN_B seg7_demo = 18" "PIN_C seg7_demo = 15" "PIN_D seg7_demo = 14"
  by (simp_all add: seg7_demo_def seg7_init_def seg7_load_def Let_def)

theorem seg7_setnum_shows_witness: "shown_number (snd (seg7_setnum 7 seg7_demo)) = Some 7"
  using seg7_setnum_shows [of seg7_demo 7] by simp

text \<open>
  C25. A countdown that \<^verbatim>\<open>seg7_counting\<close> has accepted and that nobody stops writes the
  digits \<open>n, n - 1, ..., 0\<close> to the pins in this order and nothing else, clears
  \<^verbatim>\<open>is_counting\<close>, and then calls the callback if it was given one.
\<close>

theorem countdown_runs_to_zero:
  assumes "seg7_counting env (int n) cb s = (r, s', Some p)"
  shows "\<exists>k. count_steps (thread_callback (counting_thread_start p)) k
       (thread_pc (counting_thread_start p), s') =
     (if cb then Notify else Ended,
      s\<lparr>seg7_calls := seg7_calls s @ concat (map (digit_calls s) (rev [0..<Suc n]))\<rparr>)"
proof -
  note st = seg7_counting_started [OF assms]
  have "count_head (int n) = Check (int n)" by (simp add: count_head_def)
  with st count_alone [of n s' cb] show ?thesis
    by (intro exI [of _ "3 * n + 3"]) (simp add: counting_thread_start_def)
qed

theorem countdown_runs_to_zero_witness:
  "\<exists>p k. seg7_counting \<lparr>malloc_ok = True, thread_ok = True, tone_create_ret = 0, pin_level_read = 0\<rparr>
       (int 2) True seg7_demo = (0, seg7_demo\<lparr>is_counting := True\<rparr>, Some p) \<and>
     count_steps True k (Check 2, seg7_demo\<lparr>is_counting := True\<rparr>) =
       (Notify, seg7_demo\<lparr>seg7_calls := seg7_calls seg7_demo @
          digit_calls seg7_demo 2 @ digit_calls seg7_demo 1 @ digit_calls seg7_demo 0\<rparr>)"
  using countdown_runs_to_zero [of "\<lparr>malloc_ok = True, thread_ok = True, tone_create_ret = 0, pin_level_read = 0\<rparr>"
      2 True seg7_demo 0 "seg7_demo\<lparr>is_counting := True\<rparr>" "\<lparr>start_seconds = 2, callback = True\<rparr>"]
  by (simp add: seg7_counting_defs counting_thread_start_def count_head_def eval_nat_numeral)

text \<open>
  After \<^verbatim>\<open>seg7_stop_counting\<close>, a counting thread that is asleep or about to test the
  flag returns by itself within two of its steps, writes nothing more and does not call the
  callback, provided the flag stays clear.
\<close>

lemma countdown_stops_silently:
  assumes "0 < i"
  shows "let s' = snd (seg7_stop_counting s)
     in count_steps cb 2 (Nap i, s') = (Ended, s') \<and> count_steps cb 1 (Check i, s') = (Ended, s')"
  using assms count_stopped_nap [of "snd (seg7_stop_counting s)" i cb]
    count_stopped_check [of "snd (seg7_stop_counting s)" cb i]
  by (simp only: Let_def seg7_stop_counting_is_counting simp_thms not_False_eq_True)

text \<open>
  \<^verbatim>\<open>seg7_wait_counting\<close> returns 0 at the first of its polls that finds the flag clear.
\<close>

lemma seg7_wait_counting_returns:
  assumes "\<forall>i < n. seen i" "\<not> seen n"
  shows "seg7_wait_counting seen 0 = Some (0, n)"
  using seg7_wait_counting_polls [of n seen 0] assms by (simp add: seg7_wait_counting.simps [of seen n])

text \<open>
  C20. Whatever calls are made and however the counting threads interleave, the flag
  \<^verbatim>\<open>is_counting\<close> is never left set without a thread that will clear it, or a call of
  \<^verbatim>\<open>seg7_counting\<close> that is about to start one or to clear it: a display cannot be locked out of
  counting for ever.
\<close>

theorem counting_flag_has_owner:
  assumes "seg7_trace seg7_boot es S" "is_counting (seg7 S)"
  shows "counting_threads S \<noteq> [] \<or> starting S \<noteq> []"
  using seg7_trace_flag_owned [OF assms(1) flag_boot(1)] assms(2)
  by (auto simp: flag_owned_def counting_number_def)

abbreviation demo_thread :: "c_int \<Rightarrow> counting_thread" where
  "demo_thread n \<equiv> counting_thread_start \<lparr>start_seconds = n, callback = True\<rparr>"

lemma start_trace:
  assumes "seg7_trace R es \<lparr>seg7 = s, counters = ts, starting = []\<rparr>"
    and "seg7_counting_claim n s = Some s'"
  shows "seg7_trace R (es @ [Claim, Spawn]) \<lparr>seg7 = s', counters = ts @ [demo_thread n], starting = []\<rparr>"
proof -
  let ?env = "\<lparr>malloc_ok = True, thread_ok = True, tone_create_ret = 0, pin_level_read = 0\<rparr>"
  let ?S = "\<lparr>seg7 = s', counters = ts, starting = [(n, True)]\<rparr>"
  have "seg7_step \<lparr>seg7 = s, counters = ts, starting = []\<rparr> Claim ?S"
    using do_claim [of n "\<lparr>seg7 = s, counters = ts, starting = []\<rparr>" s' True] assms(2) by simp
  moreover have "seg7_step ?S Spawn \<lparr>seg7 = s', counters = ts @ [demo_thread n], starting = []\<rparr>"
    using do_spawn [of ?S "[]" n True "[]" ?env 0 s'] by (simp add: seg7_counting_spawn_def)
  ultimately show ?thesis using trace_snoc [OF trace_snoc [OF assms(1)]] by fastforce
qed

lemma seg7_demo_trace:
  "seg7_trace seg7_boot [Entry, Claim, Spawn]
     \<lparr>seg7 = seg7_demo\<lparr>is_counting := True\<rparr>, counters = [demo_thread 9], starting = []\<rparr>"
proof -
  have "seg7_step seg7_boot Entry \<lparr>seg7 = seg7_demo, counters = [], starting = []\<rparr>"
    using do_init [of seg7_boot "Some \<lparr>pin_a = 23, pin_b = 18, pin_c = 15, pin_d = 14\<rparr>"]
    by (simp add: seg7_boot_def seg7_demo_def)
  from start_trace [OF trace_snoc [OF trace_nil this], of 9 "seg7_demo\<lparr>is_counting := True\<rparr>"]
  show ?thesis by (simp add: seg7_counting_claim_def)
qed

theorem counting_flag_has_owner_witness:
  "\<exists>S. seg7_trace seg7_boot [Entry, Claim, Spawn] S \<and> is_counting (seg7 S) \<and> counting_threads S \<noteq> []"
  using counting_flag_has_owner [OF seg7_demo_trace] seg7_demo_trace by fastforce

text \<open>
  C21. As long as no countdown has been stopped, there is never more than one countdown: while
  the flag is set there is exactly one, a counting thread or a call of \<^verbatim>\<open>seg7_counting\<close> between
  the setting of the flag and the creation of its thread, and while it is clear there is none.
\<close>

theorem one_countdown_without_stop:
  assumes "seg7_trace seg7_boot es S" "Stop \<notin> set es"
  shows "length (counting_threads S) + length (starting S) = (if seg7_is_counting (seg7 S) then 1 else 0)"
  using seg7_trace_flag_exact [OF assms flag_boot(2)]
  by (simp add: flag_exact_def counting_number_def seg7_is_counting_def)

theorem one_countdown_without_stop_witness:
  "\<exists>S. seg7_trace seg7_boot [Entry, Claim, Spawn] S \<and> length (counting_threads S) = 1"
  using one_countdown_without_stop [OF seg7_demo_trace] seg7_demo_trace
  by (fastforce simp: seg7_is_counting_def)

text \<open>
  C32. A stop does not wait for the stopped thread: a countdown started while it still sleeps
  finds the flag clear and sets it again, and from then on two threads count and write the
  pins at the same time.
\<close>

theorem restart_runs_two_countdowns:
  "\<exists>S. seg7_trace seg7_boot [Entry, Claim, Spawn, Stop, Claim, Spawn] S \<and> is_counting (seg7 S) \<and>
     length (counting_threads S) = 2"
proof -
  let ?T = "\<lparr>seg7 = seg7_demo\<lparr>is_counting := True\<rparr>, counters = [demo_thread 9], starting = []\<rparr>"
  let ?U = "\<lparr>seg7 = seg7_demo\<lparr>is_counting := False\<rparr>, counters = [demo_thread 9], starting = []\<rparr>"
  let ?V = "\<lparr>seg7 = seg7_demo\<lparr>is_counting := True\<rparr>, counters = [demo_thread 9, demo_thread 5], starting = []\<rparr>"
  have "seg7_step ?T Stop ?U"
    using do_stop [of ?T] by (simp add: seg7_stop_counting_def)
  from start_trace [OF trace_snoc [OF seg7_demo_trace this], of 5 "seg7_demo\<lparr>is_counting := True\<rparr>"]
  have "seg7_trace seg7_boot [Entry, Claim, Spawn, Stop, Claim, Spawn] ?V"
    by (simp add: seg7_counting_claim_def)
  then show ?thesis by (intro exI [of _ ?V]) (simp add: counting_threads_def)
qed

end
