(* ===== verification/Buzzer.thy ===== *)
theory Buzzer
  imports Gpio
begin

text \<open>
  The buzzer library, \<^verbatim>\<open>buzzer/buzzer.c\<close>: four melodies, played by a detached thread that
  polls the shared flag \<^verbatim>\<open>should_stop\<close> before every note and after every 50 ms.
  \<open>buzzer_lib\<close> holds the static variables and the wiringPi calls made. The playing thread
  is a machine with one step per critical section or wiringPi call (\<open>music_step\<close>);
  \<open>buzzer_step\<close> interleaves any number of such threads with the library's entry points.
\<close>

section \<open>Melodies\<close>

text \<open>
  The note frequencies are \<^verbatim>\<open>double\<close> constants with two decimals, stored in arrays of
  \<^verbatim>\<open>int\<close>: they are kept in hundredths here, and the conversion to \<^verbatim>\<open>int\<close> drops the
  decimals.
\<close>

definition DO :: int where "DO = 26163"
definition RE :: int where "RE = 29366"
definition MI :: int where "MI = 32963"
definition FA :: int where "FA = 34923"
definition SOL :: int where "SOL = 39100"
definition LA :: int where "LA = 44000"
definition SI :: int where "SI = 49388"
definition DO_H :: int where "DO_H = 52325"
definition REST :: int where "REST = 0"

definition int_of_hundredths :: "int \<Rightarrow> c_int" where
  "int_of_hundredths h = h div 100"

definition school_bell :: "c_int list" where
  "school_bell = map int_of_hundredths
     [SOL, SOL, LA, LA, SOL, SOL, MI, MI,
      SOL, SOL, MI, MI, RE, RE, RE, REST,
      SOL, SOL, LA, LA, SOL, SOL, MI, MI,
      SOL, MI, RE, MI, DO, DO, DO, REST]"

definition school_bell_length :: c_int where "school_bell_length = 32"

definition twinkle_star :: "c_int list" where
  "twinkle_star = map int_of_hundredths
     [DO, DO, SOL, SOL, LA, LA, SOL, REST,
      FA, FA, MI, MI, RE, RE, DO, REST,
      SOL, SOL, FA, FA, MI, MI, RE, REST,
      SOL, SOL, FA, FA, MI, MI, RE, REST,
      DO, DO, SOL, SOL, LA, LA, SOL, REST,
      FA, FA, MI, MI, RE, RE, DO, REST]"

definition twinkle_star_length :: c_int where "twinkle_star_length = 48"

definition happy_birthday :: "c_int list" where
  "happy_birthday = map int_of_hundredths
     [SOL, SOL, LA, SOL, DO_H, SI, REST,
      SOL, SOL, LA, SOL, RE, DO_H, REST,
      SOL, SOL, SOL, MI, DO_H, SI, LA, REST,
      FA, FA, MI, DO_H, RE, DO_H, REST]"

definition happy_birthday_length :: c_int where "happy_birthday_length = 28"

definition butterfly :: "c_int list" where
  "butterfly = map int_of_hundredths
     [DO, RE, MI, FA, MI, RE, DO, REST,
      MI, FA, SOL, SOL, MI, FA, SOL, SOL,
      DO_H, SOL, MI, SOL, FA, MI, RE, DO,
      DO, RE, MI, FA, MI, RE, DO, REST]"

definition butterfly_length :: c_int where "butterfly_length = 32"

definition MUSIC_SCHOOL_BELL :: c_int where "MUSIC_SCHOOL_BELL = 1"
definition MUSIC_TWINKLE_STAR :: c_int where "MUSIC_TWINKLE_STAR = 2"
definition MUSIC_HAPPY_BIRTHDAY :: c_int where "MUSIC_HAPPY_BIRTHDAY = 3"
definition MUSIC_BUTTERFLY :: c_int where "MUSIC_BUTTERFLY = 4"

lemmas music_consts = MUSIC_SCHOOL_BELL_def MUSIC_TWINKLE_STAR_def MUSIC_HAPPY_BIRTHDAY_def
  MUSIC_BUTTERFLY_def

lemmas melody_defs = school_bell_def school_bell_length_def twinkle_star_def
  twinkle_star_length_def happy_birthday_def happy_birthday_length_def butterfly_def
  butterfly_length_def

record MusicData =
  m_notes :: "c_int list"
  m_length :: c_int
  m_tempo :: c_int

text \<open>The \<^verbatim>\<open>switch\<close> of \<^verbatim>\<open>play_music_async\<close>; \<open>None\<close> is its default branch.\<close>

definition music_data :: "c_int \<Rightarrow> MusicData option" where
  "music_data music_number =
     (if music_number = MUSIC_SCHOOL_BELL then
        Some \<lparr>m_notes = school_bell, m_length = school_bell_length, m_tempo = 280\<rparr>
      else if music_number = MUSIC_TWINKLE_STAR then
        Some \<lparr>m_notes = twinkle_star, m_length = twinkle_star_length, m_tempo = 280\<rparr>
      else if music_number = MUSIC_HAPPY_BIRTHDAY then
        Some \<lparr>m_notes = happy_birthday, m_length = happy_birthday_length, m_tempo = 350\<rparr>
      else if music_number = MUSIC_BUTTERFLY then
        Some \<lparr>m_notes = butterfly, m_length = butterfly_length, m_tempo = 280\<rparr>
      else None)"

section \<open>State and operations\<close>

text \<open>The static variable \<^verbatim>\<open>music_thread\<close>: never set, or a thread and whether it is detached.\<close>

datatype pthread = Unset | Joinable | Detached_thread

record buzzer_lib =
  initialized :: bool
  SPKR :: c_int
  player_handle :: pthread
  is_playing :: bool
  should_stop :: bool
  buzzer_calls :: "gpio_call list"

definition buzzer_load :: buzzer_lib where
  "buzzer_load =
     \<lparr>initialized = False, SPKR = - 1, player_handle = Unset, is_playing = False, should_stop = False, buzzer_calls = []\<rparr>"

definition softToneWrite :: "c_int \<Rightarrow> buzzer_lib \<Rightarrow> buzzer_lib" where
  "softToneWrite f b = b\<lparr>buzzer_calls := buzzer_calls b @ [SoftToneWrite (SPKR b) f]\<rparr>"

definition music_init :: "os_env \<Rightarrow> c_int \<Rightarrow> buzzer_lib \<Rightarrow> c_int \<times> buzzer_lib" where
  "music_init env speaker_pin b =
     (if initialized b then (0, b)
      else if speaker_pin < 0 then (- 1, b)
      else let b1 = b\<lparr>SPKR := speaker_pin,
                      buzzer_calls := buzzer_calls b @ [SoftToneCreate speaker_pin]\<rparr>
           in if tone_create_ret env \<noteq> 0 then (- 1, b1)
              else (0, b1\<lparr>initialized := True\<rparr>))"

text \<open>
  \<^verbatim>\<open>play_music_async\<close> returns its status, the new state and, when it succeeds, the data of
  the playing thread it has started and detached.
\<close>

definition play_music_async ::
  "os_env \<Rightarrow> c_int \<Rightarrow> buzzer_lib \<Rightarrow> c_int \<times> buzzer_lib \<times> MusicData option" where
  "play_music_async env music_number b =
     (if \<not> initialized b then (- 1, b, None)
      else if is_playing b then (- 1, b, None)
      else if \<not> malloc_ok env then (- 1, b, None)
      else case music_data music_number of
        None \<Rightarrow> (- 1, b, None)
      | Some data \<Rightarrow>
          let b1 = b\<lparr>is_playing := True, should_stop := False\<rparr>
          in if \<not> thread_ok env then (- 1, b1\<lparr>is_playing := False\<rparr>, None)
             else
               let b2 = b1\<lparr>player_handle := Joinable\<rparr>;
                   b3 = b2\<lparr>player_handle := Detached_thread\<rparr>  \<comment> \<open>pthread_detach\<close>
               in (0, b3, Some data))"

definition stop_music :: "buzzer_lib \<Rightarrow> c_int \<times> buzzer_lib" where
  "stop_music b = (if \<not> is_playing b then (- 1, b) else (0, b\<lparr>should_stop := True\<rparr>))"

definition is_music_playing :: "buzzer_lib \<Rightarrow> c_int" where
  "is_music_playing b = (if is_playing b then 1 else 0)"

text \<open>
  \<^verbatim>\<open>music_cleanup\<close> releases the mutex between \<^verbatim>\<open>stop_music\<close> and its own reading of
  \<^verbatim>\<open>is_playing\<close>; \<open>between\<close> is what the playing thread does to the library in that gap.
  The first component of the result is the thread that \<^verbatim>\<open>pthread_join\<close> was called on, if any.
\<close>

definition music_cleanup ::
  "(buzzer_lib \<Rightarrow> buzzer_lib) \<Rightarrow> buzzer_lib \<Rightarrow> pthread option \<times> buzzer_lib" where
  "music_cleanup between b =
     (if initialized b then
        let b1 = between (snd (stop_music b));
            joined = (if is_playing b1 then Some (player_handle b1) else None);
            b2 = softToneWrite 0 b1
        in (joined, b2\<lparr>initialized := False\<rparr>)
      else (None, b))"

lemmas [lib_defs] = music_init_def play_music_async_def stop_music_def is_music_playing_def
  music_cleanup_def

section \<open>The playing thread\<close>

text \<open>
  Where a playing thread is in \<^verbatim>\<open>music_playback_thread\<close> and, inside it,
  \<^verbatim>\<open>play_notes_interruptible\<close>: about to test the flag before note \<open>i\<close>, about to write
  note \<open>i\<close>, about to delay with \<open>rem\<close> ms of note \<open>i\<close> left, about to poll the flag
  after a delay, past the last note, back from the loop with its result and about to clear
  the flags, returned.
\<close>

datatype music_pc =
    NoteCheck c_int
  | NoteTone c_int
  | NoteDelay c_int c_int
  | NotePoll c_int c_int
  | Silence
  | Leave c_int
  | Gone

record music_thread =
  m_data :: MusicData
  m_pc :: music_pc

definition delay_step :: c_int where "delay_step = 50"

definition note_head :: "MusicData \<Rightarrow> c_int \<Rightarrow> music_pc" where
  "note_head d i = (if i < m_length d then NoteCheck i else Silence)"

definition delay_head :: "MusicData \<Rightarrow> c_int \<Rightarrow> c_int \<Rightarrow> music_pc" where
  "delay_head d i remaining = (if remaining > 0 then NoteDelay i remaining else note_head d (i + 1))"

definition music_thread_start :: "MusicData \<Rightarrow> music_thread" where
  "music_thread_start d = \<lparr>m_data = d, m_pc = note_head d 0\<rparr>"

fun music_step :: "MusicData \<Rightarrow> music_pc \<Rightarrow> buzzer_lib \<Rightarrow> (music_pc \<times> buzzer_lib) checked" where
  "music_step d (NoteCheck i) b =
     Inr (if should_stop b then (Leave (- 1), softToneWrite 0 b) else (NoteTone i, b))"
| "music_step d (NoteTone i) b =
     checked_bind (array_get (m_notes d) i) (\<lambda>f.
       Inr (delay_head d i (m_tempo d), softToneWrite f b))"
| "music_step d (NoteDelay i remaining) b =
     (let sleep_time = (if remaining > delay_step then delay_step else remaining)
      in Inr (NotePoll i (remaining - sleep_time),
              b\<lparr>buzzer_calls := buzzer_calls b @ [Delay sleep_time]\<rparr>))"
| "music_step d (NotePoll i remaining) b =
     Inr (if should_stop b then (Leave (- 1), softToneWrite 0 b) else (delay_head d i remaining, b))"
| "music_step d Silence b = Inr (Leave 0, softToneWrite 0 b)"
| "music_step d (Leave r) b = Inr (Gone, b\<lparr>is_playing := False, should_stop := False\<rparr>)"
| "music_step d Gone b = Inr (Gone, b)"

text \<open>A playing thread running alone.\<close>

fun music_steps :: "nat \<Rightarrow> MusicData \<Rightarrow> music_pc \<times> buzzer_lib \<Rightarrow> (music_pc \<times> buzzer_lib) checked" where
  "music_steps 0 d c = Inr c"
| "music_steps (Suc k) d c = checked_bind (music_step d (fst c) (snd c)) (music_steps k d)"

section \<open>Interleavings\<close>

record buzzer_sys =
  buzzer :: buzzer_lib
  players :: "music_thread list"

definition buzzer_boot :: buzzer_sys where
  "buzzer_boot = \<lparr>buzzer = buzzer_load, players = []\<rparr>"

text \<open>
  One step of the library in use with the speaker on \<open>pin\<close>: a call of an entry point, or
  a step of playing thread \<open>j\<close>. A clean-up is two steps, with any steps in between.
\<close>

inductive buzzer_step :: "c_int \<Rightarrow> buzzer_sys \<Rightarrow> buzzer_sys \<Rightarrow> bool" for pin where
  do_music_init: "buzzer_step pin S (S\<lparr>buzzer := snd (music_init env pin (buzzer S))\<rparr>)"
| do_play: "play_music_async env n (buzzer S) = (r, b', Some d) \<Longrightarrow>
    buzzer_step pin S (S\<lparr>buzzer := b', players := players S @ [music_thread_start d]\<rparr>)"
| do_play_refused: "play_music_async env n (buzzer S) = (r, b', None) \<Longrightarrow>
    buzzer_step pin S (S\<lparr>buzzer := b'\<rparr>)"
| do_stop_music: "buzzer_step pin S (S\<lparr>buzzer := snd (stop_music (buzzer S))\<rparr>)"
| do_silence: "initialized (buzzer S) \<Longrightarrow>
    buzzer_step pin S (S\<lparr>buzzer := (softToneWrite 0 (buzzer S))\<lparr>initialized := False\<rparr>\<rparr>)"
| do_music_tick: "j < length (players S) \<Longrightarrow>
    music_step (m_data (players S ! j)) (m_pc (players S ! j)) (buzzer S) = Inr (pc', b') \<Longrightarrow>
    buzzer_step pin S
      (S\<lparr>buzzer := b', players := (players S)[j := (players S ! j)\<lparr>m_pc := pc'\<rparr>]\<rparr>)"

inductive buzzer_reach :: "c_int \<Rightarrow> buzzer_sys \<Rightarrow> bool" for pin where
  reach_boot: "buzzer_reach pin buzzer_boot"
| reach_step: "buzzer_reach pin S \<Longrightarrow> buzzer_step pin S T \<Longrightarrow> buzzer_reach pin T"

definition live_players :: "buzzer_sys \<Rightarrow> music_thread list" where
  "live_players S = filter (\<lambda>t. m_pc t \<noteq> Gone) (players S)"

section \<open>A thread stays inside its melody and ends\<close>

definition data_ok :: "MusicData \<Rightarrow> bool" where
  "data_ok d \<longleftrightarrow> 0 \<le> m_length d \<and> m_length d \<le> int (length (m_notes d)) \<and> 0 < m_tempo d"

fun pc_ok :: "MusicData \<Rightarrow> music_pc \<Rightarrow> bool" where
  "pc_ok d (NoteCheck i) = (0 \<le> i \<and> i < m_length d)"
| "pc_ok d (NoteTone i) = (0 \<le> i \<and> i < m_length d)"
| "pc_ok d (NoteDelay i r) = (0 \<le> i \<and> i < m_length d \<and> 0 < r)"
| "pc_ok d (NotePoll i r) = (0 \<le> i \<and> i < m_length d \<and> 0 \<le> r)"
| "pc_ok d _ = True"

text \<open>An upper bound on the steps a thread still takes, whatever happens around it.\<close>

definition notes_after :: "MusicData \<Rightarrow> c_int \<Rightarrow> nat" where
  "notes_after d i = nat (m_length d - i - 1) * (nat (2 * m_tempo d) + 3) + 3"

fun rank :: "MusicData \<Rightarrow> music_pc \<Rightarrow> nat" where
  "rank d (NoteCheck i) = notes_after d i + nat (2 * m_tempo d) + 2"
| "rank d (NoteTone i) = notes_after d i + nat (2 * m_tempo d) + 1"
| "rank d (NoteDelay i r) = notes_after d i + nat (2 * r)"
| "rank d (NotePoll i r) = notes_after d i + nat (2 * r) + 1"
| "rank d Silence = 2"
| "rank d (Leave _) = 1"
| "rank d Gone = 0"

lemma music_data_ok: "music_data n = Some d \<Longrightarrow> data_ok d"
  by (auto simp: music_data_def data_ok_def melody_defs split: if_splits)

lemma notes_after_Suc:
  assumes "i + 1 < m_length d"
  shows "notes_after d i = notes_after d (i + 1) + (nat (2 * m_tempo d) + 3)"
proof -
  have "nat (m_length d - i - 1) = Suc (nat (m_length d - (i + 1) - 1))"
    using assms by linarith
  then show ?thesis by (simp add: notes_after_def)
qed

lemma notes_after_ge: "3 \<le> notes_after d i"
  by (simp add: notes_after_def)

lemma note_head_next:
  assumes "0 \<le> i"
  shows "pc_ok d (note_head d (i + 1))" and "rank d (note_head d (i + 1)) < notes_after d i"
  using assms notes_after_Suc [of i d] notes_after_ge [of d i] by (auto simp: note_head_def)

lemma note_head_0 [simp]: "pc_ok d (note_head d 0)"
  by (simp add: note_head_def)

lemma delay_head_ok:
  assumes "0 \<le> i" "i < m_length d"
  shows "pc_ok d (delay_head d i r)"
    and "rank d (delay_head d i r) \<le> notes_after d i + nat (2 * r)"
  using assms note_head_next [of i d] by (auto simp: delay_head_def)

text \<open>A step of a well-placed thread never faults, stays well placed and comes closer to the end.\<close>

lemma music_step_ok:
  assumes "data_ok d" "pc_ok d pc"
  obtains pc' b' where "music_step d pc b = Inr (pc', b')" "pc_ok d pc'"
    "pc \<noteq> Gone \<Longrightarrow> rank d pc' < rank d pc"
proof (cases pc)
  case (NoteCheck i)
  with assms that show thesis by (cases "should_stop b") (auto simp: notes_after_def)
next
  case (NoteTone i)
  with assms have "array_get (m_notes d) i = Inr (m_notes d ! nat i)"
    by (simp add: array_get_def data_ok_def)
  with NoteTone assms that delay_head_ok [of i d "m_tempo d"] show thesis by auto
next
  case (NoteDelay i r)
  with assms that show thesis
    by (cases "50 < r") (auto simp: Let_def delay_step_def)
next
  case (NotePoll i r)
  with assms that delay_head_ok [of i d r] show thesis
    by (cases "should_stop b") (auto simp: notes_after_def)
qed (use that in \<open>auto\<close>)

text \<open>
  A thread that takes steps in arbitrary library states, as other threads leave them.
\<close>

fun music_run :: "MusicData \<Rightarrow> music_pc \<Rightarrow> buzzer_lib list \<Rightarrow> music_pc checked" where
  "music_run d pc [] = Inr pc"
| "music_run d pc (b # bs) = checked_bind (music_step d pc b) (\<lambda>(pc', _). music_run d pc' bs)"

lemma music_run_Gone [simp]: "music_run d Gone bs = Inr Gone"
  by (induction bs) simp_all

lemma music_run_ends:
  assumes "data_ok d" "pc_ok d pc" "rank d pc \<le> length bs"
  shows "music_run d pc bs = Inr Gone"
  using assms
proof (induction bs arbitrary: pc)
  case Nil
  then show ?case by (cases pc) (auto simp: notes_after_def)
next
  case (Cons b bs)
  show ?case
  proof (cases "pc = Gone")
    case False
    from Cons.prems obtain pc' b' where "music_step d pc b = Inr (pc', b')" "pc_ok d pc'"
      "rank d pc' < rank d pc" using False music_step_ok [of d pc b] by metis
    with Cons show ?thesis by simp
  qed simp
qed

section \<open>Playing a melody\<close>

text \<open>How a note is held: delays of 50 ms and one for what is left.\<close>

definition pauses :: "int \<Rightarrow> gpio_call list" where
  "pauses ms = replicate (nat ((ms - 1) div 50)) (Delay 50) @ [Delay ((ms - 1) mod 50 + 1)]"

definition melody_calls :: "c_int \<Rightarrow> c_int list \<Rightarrow> c_int \<Rightarrow> gpio_call list" where
  "melody_calls spkr fs ms = concat (map (\<lambda>f. SoftToneWrite spkr f # pauses ms) fs)"

lemma pauses_rec: "50 < ms \<Longrightarrow> pauses ms = Delay 50 # pauses (ms - 50)"
proof -
  assume "50 < ms"
  have "(ms - 1) div 50 = (ms - 50 - 1) div 50 + 1" "(ms - 1) mod 50 = (ms - 50 - 1) mod 50"
    using div_add_self2 [of 50 "ms - 51"] mod_add_self2 [of "ms - 51" 50] by simp_all
  moreover have "0 \<le> (ms - 50 - 1) div 50" using \<open>50 < ms\<close> by simp
  ultimately show ?thesis by (simp add: pauses_def nat_add_distrib)
qed

lemma pauses_last: "0 < ms \<Longrightarrow> ms \<le> 50 \<Longrightarrow> pauses ms = [Delay ms]"
  by (simp add: pauses_def)

lemma total_delay_pauses: "0 < ms \<Longrightarrow> total_delay (pauses ms) = ms"
proof (induction "nat ms" arbitrary: ms rule: less_induct)
  case less
  then show ?case by (cases "50 < ms") (simp_all add: pauses_rec pauses_last)
qed

lemma total_delay_melody: "0 < ms \<Longrightarrow> total_delay (melody_calls spkr fs ms) = int (length fs) * ms"
  by (induction fs) (simp_all add: melody_calls_def total_delay_pauses algebra_simps)

lemma music_steps_add:
  "music_steps (j + k) d c = checked_bind (music_steps j d c) (music_steps k d)"
  by (induction j arbitrary: c) (auto simp: checked_bind_def split: sum.splits)

lemma music_steps_trans:
  assumes "music_steps j d c = Inr c'" "music_steps k d c' = Inr c''"
  shows "music_steps (j + k) d c = Inr c''"
  using assms by (simp add: music_steps_add)

lemma play_delay:
  assumes "0 < r" "\<not> should_stop b"
  shows "\<exists>k. music_steps k d (NoteDelay i r, b) =
     Inr (note_head d (i + 1), b\<lparr>buzzer_calls := buzzer_calls b @ pauses r\<rparr>)"
  using assms
proof (induction "nat r" arbitrary: r b rule: less_induct)
  case less
  show ?case
  proof (cases "50 < r")
    case True
    let ?b = "b\<lparr>buzzer_calls := buzzer_calls b @ [Delay 50]\<rparr>"
    have "music_steps 2 d (NoteDelay i r, b) = Inr (NoteDelay i (r - 50), ?b)"
      using True less.prems by (simp add: numeral_2_eq_2 delay_step_def delay_head_def)
    moreover obtain k where "music_steps k d (NoteDelay i (r - 50), ?b) =
        Inr (note_head d (i + 1), ?b\<lparr>buzzer_calls := buzzer_calls ?b @ pauses (r - 50)\<rparr>)"
      using less.hyps [of "r - 50" ?b] True less.prems by auto
    ultimately show ?thesis
      using True by (auto dest: music_steps_trans simp: pauses_rec)
  next
    case False
    with less.prems have "music_steps 2 d (NoteDelay i r, b) =
        Inr (note_head d (i + 1), b\<lparr>buzzer_calls := buzzer_calls b @ pauses r\<rparr>)"
      by (simp add: numeral_2_eq_2 delay_step_def delay_head_def pauses_last)
    then show ?thesis by blast
  qed
qed

lemma play_note:
  assumes "data_ok d" "0 \<le> i" "i < m_length d" "\<not> should_stop b"
  shows "\<exists>k. music_steps k d (NoteCheck i, b) =
     Inr (note_head d (i + 1),
          b\<lparr>buzzer_calls := buzzer_calls b @ melody_calls (SPKR b) [m_notes d ! nat i] (m_tempo d)\<rparr>)"
proof -
  have "array_get (m_notes d) i = Inr (m_notes d ! nat i)"
    using assms by (simp add: array_get_def data_ok_def)
  then have "music_steps 2 d (NoteCheck i, b) =
      Inr (NoteDelay i (m_tempo d), softToneWrite (m_notes d ! nat i) b)"
    using assms by (simp add: numeral_2_eq_2 data_ok_def delay_head_def)
  moreover obtain k where "music_steps k d (NoteDelay i (m_tempo d), softToneWrite (m_notes d ! nat i) b) =
      Inr (note_head d (i + 1), (softToneWrite (m_notes d ! nat i) b)
        \<lparr>buzzer_calls := buzzer_calls (softToneWrite (m_notes d ! nat i) b) @ pauses (m_tempo d)\<rparr>)"
    using play_delay [of "m_tempo d" "softToneWrite (m_notes d ! nat i) b" d i] assms
    by (auto simp: data_ok_def softToneWrite_def)
  ultimately show ?thesis
    by (auto dest: music_steps_trans simp: softToneWrite_def melody_calls_def)
qed

lemma play_from:
  assumes "data_ok d" "n \<le> nat (m_length d)" "\<not> should_stop b"
  shows "\<exists>k. music_steps k d (note_head d (m_length d - int n), b) =
     Inr (Leave 0,
          b\<lparr>buzzer_calls := buzzer_calls b @
              melody_calls (SPKR b) (drop (nat (m_length d) - n) (take (nat (m_length d)) (m_notes d)))
                (m_tempo d) @
              [SoftToneWrite (SPKR b) 0]\<rparr>)"
  using assms
proof (induction n arbitrary: b)
  case 0
  then have "music_steps 1 d (note_head d (m_length d - int 0), b) = Inr (Leave 0, softToneWrite 0 b)"
    by (simp add: note_head_def)
  then show ?case by (intro exI [of _ 1]) (simp add: softToneWrite_def melody_calls_def)
next
  case (Suc n)
  let ?i = "m_length d - int (Suc n)" and ?ns = "take (nat (m_length d)) (m_notes d)"
  have i: "0 \<le> ?i" "?i < m_length d" using Suc.prems by linarith+
  let ?b = "b\<lparr>buzzer_calls := buzzer_calls b @ melody_calls (SPKR b) [m_notes d ! nat ?i] (m_tempo d)\<rparr>"
  obtain j where j: "music_steps j d (NoteCheck ?i, b) = Inr (note_head d (?i + 1), ?b)"
    using play_note [OF Suc.prems(1) i Suc.prems(3)] by blast
  have next_i: "?i + 1 = m_length d - int n" by simp
  obtain k where k: "music_steps k d (note_head d (m_length d - int n), ?b) =
     Inr (Leave 0,
          ?b\<lparr>buzzer_calls := buzzer_calls ?b @
              melody_calls (SPKR ?b) (drop (nat (m_length d) - n) ?ns) (m_tempo d) @
              [SoftToneWrite (SPKR ?b) 0]\<rparr>)"
    using Suc.IH [of ?b] Suc.prems by auto
  have "nat ?i = nat (m_length d) - Suc n" "nat ?i < length ?ns"
    using Suc.prems by (auto simp: data_ok_def)
  then have "drop (nat (m_length d) - Suc n) ?ns =
      m_notes d ! nat ?i # drop (nat (m_length d) - n) ?ns"
    using Cons_nth_drop_Suc [of "nat ?i" ?ns] Suc.prems by (simp add: Suc_diff_Suc)
  with music_steps_trans [OF j k [folded next_i]] i show ?case
    by (auto simp: note_head_def melody_calls_def)
qed

lemma play_alone:
  assumes "data_ok d" "\<not> should_stop b"
  shows "\<exists>k. music_steps k d (note_head d 0, b) =
     Inr (Leave 0,
          b\<lparr>buzzer_calls := buzzer_calls b @
              melody_calls (SPKR b) (take (nat (m_length d)) (m_notes d)) (m_tempo d) @
              [SoftToneWrite (SPKR b) 0]\<rparr>)"
  using play_from [of d "nat (m_length d)" b] assms by (simp add: data_ok_def)

section \<open>Stopping a melody\<close>

lemma stop_poll:
  "should_stop b \<Longrightarrow> music_steps 1 d (NotePoll i r, b) = Inr (Leave (- 1), softToneWrite 0 b)"
  by simp

lemma stop_delay:
  assumes "should_stop b" "0 < r"
  obtains ms where "ms \<le> 50" "music_steps 2 d (NoteDelay i r, b) =
     Inr (Leave (- 1), b\<lparr>buzzer_calls := buzzer_calls b @ [Delay ms, SoftToneWrite (SPKR b) 0]\<rparr>)"
  using assms that [of "min 50 r"]
  by (cases "50 < r") (simp_all add: numeral_2_eq_2 delay_step_def softToneWrite_def min_def)

text \<open>
  A thread in its loop that finds \<open>should_stop\<close> set is out of the loop after at most 50 ms of
  delay, and its last word to the speaker is silence.
\<close>

lemma stop_within_50ms:
  assumes "data_ok d" "pc_ok d pc" "should_stop b" "pc \<notin> {Silence, Gone}" "\<And>r. pc \<noteq> Leave r"
  shows "\<exists>k cs. music_steps k d (pc, b) =
     Inr (Leave (- 1), b\<lparr>buzzer_calls := buzzer_calls b @ cs @ [SoftToneWrite (SPKR b) 0]\<rparr>) \<and>
     total_delay cs \<le> 50"
proof (cases pc)
  case (NoteCheck i)
  then show ?thesis
    using assms by (intro exI [of _ 1] exI [of _ "[]"]) (simp add: softToneWrite_def)
next
  case (NotePoll i r)
  then show ?thesis
    using assms by (intro exI [of _ 1] exI [of _ "[]"]) (simp add: softToneWrite_def)
next
  case (NoteDelay i r)
  with assms obtain ms where "ms \<le> 50" "music_steps 2 d (pc, b) =
     Inr (Leave (- 1), b\<lparr>buzzer_calls := buzzer_calls b @ [Delay ms, SoftToneWrite (SPKR b) 0]\<rparr>)"
    using stop_delay [of b r d i] by auto
  then show ?thesis by (intro exI [of _ 2] exI [of _ "[Delay ms]"]) simp
next
  case (NoteTone i)
  let ?f = "m_notes d ! nat i"
  have "array_get (m_notes d) i = Inr ?f"
    using assms NoteTone by (simp add: array_get_def data_ok_def)
  then have "music_steps 1 d (pc, b) = Inr (NoteDelay i (m_tempo d), softToneWrite ?f b)"
    using assms NoteTone by (simp add: data_ok_def delay_head_def)
  moreover have "should_stop (softToneWrite ?f b)" "0 < m_tempo d"
    using assms by (simp_all add: softToneWrite_def data_ok_def)
  from stop_delay [OF this] obtain ms where "ms \<le> 50" "music_steps 2 d
      (NoteDelay i (m_tempo d), softToneWrite ?f b) = Inr (Leave (- 1), (softToneWrite ?f b)
        \<lparr>buzzer_calls := buzzer_calls (softToneWrite ?f b) @ [Delay ms, SoftToneWrite (SPKR (softToneWrite ?f b)) 0]\<rparr>)"
    by metis
  ultimately show ?thesis
    using music_steps_trans [of 1 d "(pc, b)"]
    by (intro exI [of _ 3] exI [of _ "[SoftToneWrite (SPKR b) ?f, Delay ms]"])
      (simp add: softToneWrite_def numeral_3_eq_3 numeral_2_eq_2)
qed (use assms in auto)

section \<open>At most one melody\<close>

text \<open>
  The invariant of the library under any interleaving: \<open>is_playing\<close> is set exactly while a
  playing thread is alive and there is never more than one; a pending stop belongs to it;
  every thread is well placed in a melody of the library, and a playing thread is detached.
\<close>

definition buzzer_inv :: "buzzer_sys \<Rightarrow> bool" where
  "buzzer_inv S \<longleftrightarrow>
     length (live_players S) = of_bool (is_playing (buzzer S)) \<and>
     (should_stop (buzzer S) \<longrightarrow> is_playing (buzzer S)) \<and>
     (is_playing (buzzer S) \<longrightarrow> player_handle (buzzer S) = Detached_thread) \<and>
     (\<forall>t \<in> set (players S). data_ok (m_data t) \<and> pc_ok (m_data t) (m_pc t))"

declare buzzer_inv_def [inv_defs]

lemma live_players_simps [simp]:
  "live_players (S\<lparr>buzzer := b\<rparr>) = live_players S"
  "length (live_players (S\<lparr>buzzer := b, players := players S @ [t]\<rparr>)) =
     length (live_players S) + of_bool (m_pc t \<noteq> Gone)"
  by (simp_all add: live_players_def)

lemma live_players_tick:
  assumes "j < length (players S)"
  shows "length (live_players (S\<lparr>buzzer := b, players := (players S)[j := (players S ! j)\<lparr>m_pc := pc'\<rparr>]\<rparr>)) +
     of_bool (m_pc (players S ! j) \<noteq> Gone) = length (live_players S) + of_bool (pc' \<noteq> Gone)"
  using length_filter_update [OF assms, of "\<lambda>t. m_pc t \<noteq> Gone" "(players S ! j)\<lparr>m_pc := pc'\<rparr>"]
  by (simp add: live_players_def)

lemma head_not_Gone [simp]: "note_head d i \<noteq> Gone" "delay_head d i r \<noteq> Gone"
  by (simp_all add: note_head_def delay_head_def)

lemma softToneWrite_frame [simp]:
  "is_playing (softToneWrite f b) = is_playing b"
  "should_stop (softToneWrite f b) = should_stop b"
  "initialized (softToneWrite f b) = initialized b"
  "SPKR (softToneWrite f b) = SPKR b" "player_handle (softToneWrite f b) = player_handle b"
  by (simp_all add: softToneWrite_def)

lemma music_step_flags:
  assumes "music_step d pc b = Inr (pc', b')"
  shows "(\<exists>r. pc = Leave r) \<and> pc' = Gone \<and> b' = b\<lparr>is_playing := False, should_stop := False\<rparr> \<or>
     (\<forall>r. pc \<noteq> Leave r) \<and> (pc' = Gone) = (pc = Gone) \<and> is_playing b' = is_playing b \<and>
     should_stop b' = should_stop b"
  using assms by (cases pc) (auto simp: checked_bind_def Let_def split: sum.splits if_splits)

lemma music_step_handle:
  "music_step d pc b = Inr (pc', b') \<Longrightarrow> player_handle b' = player_handle b \<and> initialized b' = initialized b"
  by (cases pc) (auto simp: checked_bind_def softToneWrite_def Let_def split: sum.splits if_splits)

lemma music_steps_Gone [simp]: "music_steps k d (Gone, b) = Inr (Gone, b)"
  by (induction k) simp_all

lemma music_steps_alive:
  assumes "music_steps k d (pc, b) = Inr (pc', b')" "pc' \<noteq> Gone"
  shows "pc \<noteq> Gone \<and> is_playing b' = is_playing b \<and> player_handle b' = player_handle b"
  using assms
proof (induction k arbitrary: pc b)
  case (Suc k)
  then obtain pc1 b1 where 1: "music_step d pc b = Inr (pc1, b1)" "music_steps k d (pc1, b1) = Inr (pc', b')"
    by (cases "music_step d pc b") auto
  with Suc.IH [OF 1(2) Suc.prems(2)] music_step_flags [OF 1(1)] music_step_handle [OF 1(1)]
  show ?case by auto
qed simp

lemma music_step_pc_ok:
  assumes "music_step d pc b = Inr (pc', b')" "data_ok d" "pc_ok d pc"
  shows "pc_ok d pc'"
  using assms music_step_ok [of d pc b] by (metis Inr_inject Pair_inject)

lemma play_music_async_started:
  assumes "play_music_async env n b = (r, b', Some d)"
  shows "r = 0" "b' = b\<lparr>is_playing := True, should_stop := False, player_handle := Detached_thread\<rparr>" "initialized b"
    "\<not> is_playing b" "music_data n = Some d"
  using assms by (auto simp: play_music_async_def Let_def split: if_splits option.splits)

lemma play_music_async_refused:
  assumes "play_music_async env n b = (r, b', None)"
  shows "r = - 1" "is_playing b' = is_playing b" "should_stop b' \<Longrightarrow> should_stop b"
    "buzzer_calls b' = buzzer_calls b" "initialized b' = initialized b" "SPKR b' = SPKR b"
    "player_handle b' = player_handle b"
  using assms by (auto simp: play_music_async_def Let_def split: if_splits option.splits)

lemma music_init_flags [simp]:
  "is_playing (snd (music_init env pin b)) = is_playing b"
  "should_stop (snd (music_init env pin b)) = should_stop b"
  "player_handle (snd (music_init env pin b)) = player_handle b"
  by (auto simp: music_init_def Let_def)

lemma stop_music_flags [simp]:
  "is_playing (snd (stop_music b)) = is_playing b"
  "should_stop (snd (stop_music b)) = (should_stop b \<or> is_playing b)"
  "player_handle (snd (stop_music b)) = player_handle b" "initialized (snd (stop_music b)) = initialized b"
  by (auto simp: stop_music_def)

lemma buzzer_step_inv: "buzzer_step pin S T \<Longrightarrow> buzzer_inv S \<Longrightarrow> buzzer_inv T"
proof (induction rule: buzzer_step.induct)
  case (do_music_tick j S pc' b')
  let ?t = "players S ! j"
  have t: "data_ok (m_data ?t)" "pc_ok (m_data ?t) (m_pc ?t)"
    using do_music_tick by (auto simp: buzzer_inv_def)
  from music_step_pc_ok [OF do_music_tick(2) this] have "pc_ok (m_data ?t) pc'" .
  with do_music_tick t have "\<forall>t \<in> set ((players S)[j := ?t\<lparr>m_pc := pc'\<rparr>]).
      data_ok (m_data t) \<and> pc_ok (m_data t) (m_pc t)"
    by (auto simp: buzzer_inv_def dest: set_update_subset_insert [THEN subsetD])
  moreover have "length (live_players (S\<lparr>buzzer := b', players := (players S)[j := ?t\<lparr>m_pc := pc'\<rparr>]\<rparr>)) =
      of_bool (is_playing b') \<and> (should_stop b' \<longrightarrow> is_playing b') \<and>
      (is_playing b' \<longrightarrow> player_handle b' = Detached_thread)"
    using live_players_tick [OF do_music_tick(1), where b = b' and pc' = pc']
      music_step_flags [OF do_music_tick(2)] music_step_handle [OF do_music_tick(2)] do_music_tick.prems
    by (cases "is_playing (buzzer S)") (auto simp: buzzer_inv_def)
  ultimately show ?case by (simp add: buzzer_inv_def)
qed (auto simp: buzzer_inv_def music_thread_start_def dest: play_music_async_started
    play_music_async_refused music_data_ok)

lemma buzzer_boot_inv: "buzzer_inv buzzer_boot"
  by (simp add: buzzer_inv_def buzzer_boot_def buzzer_load_def live_players_def)

lemma buzzer_reach_inv: "buzzer_reach pin S \<Longrightarrow> buzzer_inv S"
  by (induction rule: buzzer_reach.induct) (auto intro: buzzer_boot_inv buzzer_step_inv)

text \<open>
  \<open>between\<close> in the interpretation is any behaviour of the playing thread during a clean-up.
\<close>

interpretation buzzer_dev:
  device_library "music_init env pin" "\<lambda>b. snd (music_cleanup between b)" initialized
  by unfold_locales (auto simp: music_init_def music_cleanup_def Let_def)

section \<open>Properties\<close>

definition buzzer_demo :: buzzer_lib where
  "buzzer_demo = snd (music_init
     \<lparr>malloc_ok = True, thread_ok = True, tone_create_ret = 0, pin_level_read = 0\<rparr> 27 buzzer_load)"

lemma buzzer_demo_simps [simp]:
  "initialized buzzer_demo" "SPKR buzzer_demo = 27" "\<not> is_playing buzzer_demo"
  "\<not> should_stop buzzer_demo"
  by (simp_all add: buzzer_demo_def music_init_def buzzer_load_def Let_def)

text \<open>
  C18. A melody that \<^verbatim>\<open>play_music_async\<close> has accepted and that nobody stops is played note by
  note, every note held for the melody's tempo, then the speaker is silenced and both flags
  are cleared; it takes length times tempo milliseconds of delay.
\<close>

theorem melody_plays_through:
  assumes "play_music_async env n b = (r, b', Some d)"
  shows "(\<exists>k. music_steps k d (m_pc (music_thread_start d), b') =
       Inr (Gone, b\<lparr>is_playing := False, should_stop := False, player_handle := Detached_thread,
         buzzer_calls := buzzer_calls b @
           melody_calls (SPKR b) (take (nat (m_length d)) (m_notes d)) (m_tempo d) @
           [SoftToneWrite (SPKR b) 0]\<rparr>)) \<and>
     total_delay (melody_calls (SPKR b) (take (nat (m_length d)) (m_notes d)) (m_tempo d)) =
       m_length d * m_tempo d"
proof -
  note st = play_music_async_started [OF assms]
  have d: "data_ok d" using st music_data_ok by blast
  let ?cs = "melody_calls (SPKR b) (take (nat (m_length d)) (m_notes d)) (m_tempo d) @
    [SoftToneWrite (SPKR b) 0]"
  have "\<exists>k. music_steps k d (note_head d 0, b') =
      Inr (Leave 0, b'\<lparr>buzzer_calls := buzzer_calls b @ ?cs\<rparr>)"
    using play_alone [OF d, of b'] st by simp
  then obtain k where "music_steps k d (note_head d 0, b') =
      Inr (Leave 0, b'\<lparr>buzzer_calls := buzzer_calls b @ ?cs\<rparr>)" ..
  from music_steps_trans [OF this, of 1] have "music_steps (k + 1) d (m_pc (music_thread_start d), b') =
      Inr (Gone, b\<lparr>is_playing := False, should_stop := False, player_handle := Detached_thread,
        buzzer_calls := buzzer_calls b @ ?cs\<rparr>)"
    using st by (simp add: music_thread_start_def)
  then show ?thesis using d by (intro conjI exI) (assumption, auto simp: total_delay_melody data_ok_def)
qed

theorem melody_plays_through_witness:
  "\<exists>d. music_data 2 = Some d \<and>
     total_delay (melody_calls 27 (take (nat (m_length d)) (m_notes d)) (m_tempo d)) = 48 * 280"
  using melody_plays_through [of "\<lparr>malloc_ok = True, thread_ok = True, tone_create_ret = 0, pin_level_read = 0\<rparr>"
      2 buzzer_demo 0 "buzzer_demo\<lparr>is_playing := True, should_stop := False, player_handle := Detached_thread\<rparr>" "the (music_data 2)"]
  by (simp add: play_music_async_def music_data_def music_consts twinkle_star_length_def Let_def)

text \<open>
  C17. Whatever the other threads do to the library between its steps, a playing thread never
  reads outside its melody and returns: 27100 of its steps are enough for every melody.
\<close>

theorem player_always_ends:
  assumes "music_data n = Some d" "27100 \<le> length bs"
  shows "music_run d (m_pc (music_thread_start d)) bs = Inr Gone"
proof -
  have "rank d (note_head d 0) \<le> 27100"
    using assms(1)
    by (auto simp: music_data_def note_head_def notes_after_def melody_defs split: if_splits)
  with music_run_ends [OF music_data_ok [OF assms(1)], of "note_head d 0" bs] assms(2)
  show ?thesis by (simp add: music_thread_start_def)
qed

theorem player_always_ends_witness:
  "\<exists>d. music_data 3 = Some d \<and>
     music_run d (m_pc (music_thread_start d)) (replicate 27100 buzzer_demo) = Inr Gone"
  using player_always_ends [of 3 "the (music_data 3)" "replicate 27100 buzzer_demo"]
  by (simp add: music_data_def music_consts)

text \<open>
  C19. Once \<^verbatim>\<open>stop_music\<close> has returned 0, a playing thread anywhere in its loop leaves it after
  at most 50 ms of delay, and the last thing it writes to the speaker is silence.
\<close>

theorem stop_music_takes_50ms:
  assumes "music_data n = Some d" "pc_ok d pc" "pc \<notin> {Silence, Gone}" "\<forall>r. pc \<noteq> Leave r"
    and "stop_music b = (0, b')"
  shows "\<exists>k cs. music_steps k d (pc, b') =
       Inr (Leave (- 1), b'\<lparr>buzzer_calls := buzzer_calls b' @ cs @ [SoftToneWrite (SPKR b') 0]\<rparr>) \<and>
     total_delay cs \<le> 50"
proof -
  have "should_stop b'" using assms(5) by (auto simp: stop_music_def split: if_splits)
  with stop_within_50ms [OF music_data_ok [OF assms(1)] assms(2) this assms(3)] assms(4)
  show ?thesis by blast
qed

theorem stop_music_takes_50ms_witness:
  "\<exists>k cs. music_steps k (the (music_data 1))
       (NoteDelay 3 280, buzzer_demo\<lparr>is_playing := True, should_stop := True\<rparr>) =
       Inr (Leave (- 1), buzzer_demo\<lparr>is_playing := True, should_stop := True,
         buzzer_calls := buzzer_calls buzzer_demo @ cs @ [SoftToneWrite 27 0]\<rparr>) \<and>
     total_delay cs \<le> 50"
  using stop_music_takes_50ms [of 1 "the (music_data 1)" "NoteDelay 3 280"
      "buzzer_demo\<lparr>is_playing := True\<rparr>" "buzzer_demo\<lparr>is_playing := True, should_stop := True\<rparr>"]
  by (simp add: music_data_def music_consts stop_music_def school_bell_length_def)

text \<open>
  C9. Under any interleaving of calls and playing threads, \<^verbatim>\<open>is_music_playing\<close> counts the
  playing threads: there is one exactly while it says 1 and never a second one, and no playing
  thread ever indexes outside its melody.
\<close>

theorem at_most_one_melody:
  assumes "buzzer_reach pin S"
  shows "int (length (live_players S)) = is_music_playing (buzzer S) \<and>
     (\<forall>t \<in> set (players S). no_fault (music_step (m_data t) (m_pc t) (buzzer S)))"
proof -
  have inv: "buzzer_inv S" by (rule buzzer_reach_inv [OF assms])
  then have "\<forall>t \<in> set (players S). no_fault (music_step (m_data t) (m_pc t) (buzzer S))"
    using music_step_ok by (metis buzzer_inv_def no_fault_simps(1))
  with inv show ?thesis by (simp add: buzzer_inv_def is_music_playing_def)
qed

lemma buzzer_demo_reach:
  "buzzer_reach 27 \<lparr>buzzer = buzzer_demo\<lparr>is_playing := True, should_stop := False, player_handle := Detached_thread\<rparr>,
     players = [music_thread_start (the (music_data 1))]\<rparr>"
proof -
  let ?env = "\<lparr>malloc_ok = True, thread_ok = True, tone_create_ret = 0, pin_level_read = 0\<rparr>"
  have "buzzer_step 27 buzzer_boot \<lparr>buzzer = buzzer_demo, players = []\<rparr>"
    using do_music_init [of 27 buzzer_boot ?env] by (simp add: buzzer_boot_def buzzer_demo_def)
  moreover have "buzzer_step 27 \<lparr>buzzer = buzzer_demo, players = []\<rparr>
     \<lparr>buzzer = buzzer_demo\<lparr>is_playing := True, should_stop := False, player_handle := Detached_thread\<rparr>,
      players = [music_thread_start (the (music_data 1))]\<rparr>"
    using do_play [of ?env 1 "\<lparr>buzzer = buzzer_demo, players = []\<rparr>"]
    by (simp add: play_music_async_def music_data_def music_consts Let_def)
  ultimately show ?thesis using reach_step [OF reach_step [OF reach_boot]] by blast
qed

theorem at_most_one_melody_witness:
  "\<exists>S. buzzer_reach 27 S \<and> length (live_players S) = 1"
  using at_most_one_melody [OF buzzer_demo_reach] buzzer_demo_reach
  by (auto simp: is_music_playing_def)

text \<open>
  C33. The playing thread is detached when it is started, yet \<^verbatim>\<open>music_cleanup\<close> joins it. In
  every reachable state in which a melody is playing: whatever number of steps the playing
  thread makes after \<^verbatim>\<open>music_cleanup\<close> has told it to stop, as long as it has not returned the
  clean-up calls \<^verbatim>\<open>pthread_join\<close>, and does so on a detached thread, which is undefined.
\<close>

theorem cleanup_joins_detached_player:
  assumes "buzzer_reach pin S" "initialized (buzzer S)" "t \<in> set (live_players S)"
    and "music_steps k (m_data t) (m_pc t, snd (stop_music (buzzer S))) = Inr (pc', b')" "pc' \<noteq> Gone"
  shows "fst (music_cleanup (\<lambda>_. b') (buzzer S)) = Some Detached_thread"
proof -
  have "buzzer_inv S" by (rule buzzer_reach_inv [OF assms(1)])
  moreover have "live_players S \<noteq> []" using assms(3) by auto
  ultimately have "is_playing (buzzer S)" "player_handle (buzzer S) = Detached_thread"
    by (cases "is_playing (buzzer S)"; simp add: buzzer_inv_def)+
  with music_steps_alive [OF assms(4,5)] assms(2) show ?thesis by (simp add: music_cleanup_def Let_def)
qed

theorem cleanup_joins_detached_player_witness:
  "\<exists>S. buzzer_reach 27 S \<and> fst (music_cleanup id (buzzer S)) = Some Detached_thread"
proof -
  let ?t = "music_thread_start (the (music_data 1))"
  let ?b = "buzzer_demo\<lparr>is_playing := True, should_stop := False, player_handle := Detached_thread\<rparr>"
  have "note_head (the (music_data 1)) 0 \<noteq> Gone" by simp
  then have "fst (music_cleanup (\<lambda>_. snd (stop_music ?b)) ?b) = Some Detached_thread"
    using cleanup_joins_detached_player [OF buzzer_demo_reach, of ?t 0 "m_pc ?t" "snd (stop_music ?b)"]
    by (simp add: live_players_def music_thread_start_def)
  then have "fst (music_cleanup id ?b) = Some Detached_thread" by (simp add: music_cleanup_def Let_def)
  with buzzer_demo_reach show ?thesis by fastforce
qed

end
