(* ===== verification/Command_Queue.thy ===== *)
theory Command_Queue
  imports Prelude
begin

text \<open>
  The command queue, \<^verbatim>\<open>server_src/command_queue.c\<close> with its types in
  \<^verbatim>\<open>server.h\<close>: a ring of 100 pointers to heap-allocated commands. The heap of
  \<^verbatim>\<open>Command\<close> objects is explicit, a map from addresses; the answer of \<^verbatim>\<open>malloc\<close> is an
  argument. The ring is shown to implement a bounded first-in first-out queue, to stay in its
  array, and to own each of its commands exactly once.
\<close>

section \<open>Commands\<close>

text \<open>
  A C enumeration variable can hold any \<^verbatim>\<open>int\<close>; \<open>CMD_OTHER\<close> stands for the values that
  have no enumerator.
\<close>

datatype CommandType =
    CMD_LED_ON
  | CMD_LED_OFF
  | CMD_SET_BRIGHTNESS
  | CMD_BUZZER_ON
  | CMD_BUZZER_OFF
  | CMD_SENSOR_ON
  | CMD_SENSOR_OFF
  | CMD_SEGMENT_DISPLAY
  | CMD_SEGMENT_STOP
  | CMD_EXIT
  | CMD_OTHER c_int

definition CommandType_of_int :: "c_int \<Rightarrow> CommandType" where
  "CommandType_of_int n =
     (if n = 1 then CMD_LED_ON else if n = 2 then CMD_LED_OFF
      else if n = 3 then CMD_SET_BRIGHTNESS else if n = 4 then CMD_BUZZER_ON
      else if n = 5 then CMD_BUZZER_OFF else if n = 6 then CMD_SENSOR_ON
      else if n = 7 then CMD_SENSOR_OFF else if n = 8 then CMD_SEGMENT_DISPLAY
      else if n = 9 then CMD_SEGMENT_STOP else if n = 0 then CMD_EXIT else CMD_OTHER n)"

record Command =
  cmd_type :: CommandType
  param1 :: c_int
  param2 :: c_int

section \<open>The ring\<close>

type_synonym addr = nat
type_synonym cmd_heap = "addr \<rightharpoonup> Command"

definition MAX_QUEUE_SIZE :: c_int where
  "MAX_QUEUE_SIZE = 100"

record CommandQueue =
  commands :: "addr option list"  \<comment> \<open>\<open>None\<close> is the null pointer\<close>
  front :: c_int
  rear :: c_int
  count :: c_int

definition queue_init :: "CommandQueue \<Rightarrow> CommandQueue" where
  "queue_init q =
     q\<lparr>front := 0, rear := 0, count := 0, commands := replicate (nat MAX_QUEUE_SIZE) None\<rparr>"

text \<open>\<open>m\<close> is what \<^verbatim>\<open>malloc\<close> returns, if it is called.\<close>

definition queue_push ::
  "addr option \<Rightarrow> Command \<Rightarrow> cmd_heap \<Rightarrow> CommandQueue \<Rightarrow> (bool \<times> cmd_heap \<times> CommandQueue) checked" where
  "queue_push m cmd h q =
     (if count q \<ge> MAX_QUEUE_SIZE then Inr (False, h, q)
      else case m of
        None \<Rightarrow> Inr (False, h, q)
      | Some new_cmd \<Rightarrow>
          checked_bind (array_set (commands q) (rear q) (Some new_cmd)) (\<lambda>cs.
          checked_bind (add_int (rear q) 1) (\<lambda>r.
          checked_bind (add_int (count q) 1) (\<lambda>c.
            Inr (True, h(new_cmd \<mapsto> cmd),
                 q\<lparr>commands := cs, rear := r smod MAX_QUEUE_SIZE, count := c\<rparr>)))))"

definition queue_pop :: "CommandQueue \<Rightarrow> (addr option \<times> CommandQueue) checked" where
  "queue_pop q =
     (if count q = 0 then Inr (None, q)
      else
        checked_bind (array_get (commands q) (front q)) (\<lambda>cmd.
        checked_bind (array_set (commands q) (front q) None) (\<lambda>cs.
        checked_bind (add_int (front q) 1) (\<lambda>f.
        checked_bind (add_int (count q) (- 1)) (\<lambda>c.
          Inr (cmd, q\<lparr>commands := cs, front := f smod MAX_QUEUE_SIZE, count := c\<rparr>))))))"

definition queue_is_empty :: "CommandQueue \<Rightarrow> bool" where
  "queue_is_empty q \<longleftrightarrow> count q = 0"

text \<open>\<^verbatim>\<open>free\<close> of a command: freeing what is not allocated is a fault.\<close>

definition free_cmd :: "addr \<Rightarrow> cmd_heap \<Rightarrow> cmd_heap checked" where
  "free_cmd p h = (case h p of None \<Rightarrow> Inl BadPointer | Some _ \<Rightarrow> Inr (h(p := None)))"

text \<open>The loop of \<^verbatim>\<open>queue_cleanup\<close>; the outer \<open>None\<close> is a loop that does not end.\<close>

partial_function (option) queue_cleanup ::
  "cmd_heap \<Rightarrow> CommandQueue \<Rightarrow> (cmd_heap \<times> CommandQueue) checked option" where
  "queue_cleanup h q =
     (if queue_is_empty q then Some (Inr (h, q))
      else case queue_pop q of
        Inl e \<Rightarrow> Some (Inl e)
      | Inr (cmd, q') \<Rightarrow>
          (case cmd of
             None \<Rightarrow> queue_cleanup h q'
           | Some p \<Rightarrow>
               (case free_cmd p h of
                  Inl e \<Rightarrow> Some (Inl e)
                | Inr h' \<Rightarrow> queue_cleanup h' q')))"

section \<open>What the ring holds\<close>

text \<open>The addresses in the queue, oldest first, and the commands stored there.\<close>

definition queue_addrs :: "CommandQueue \<Rightarrow> addr list" where
  "queue_addrs q = map the (take (nat (count q)) (rotate (nat (front q)) (commands q)))"

definition queue_items :: "cmd_heap \<Rightarrow> CommandQueue \<Rightarrow> (addr \<times> Command) list" where
  "queue_items h q = map (\<lambda>p. (p, the (h p))) (queue_addrs q)"

text \<open>
  The ring's invariant: read from \<open>front\<close>, the array holds the live addresses and then null
  pointers; \<open>rear\<close> is where they end; no address occurs twice and all are allocated.
\<close>

definition queue_inv :: "cmd_heap \<Rightarrow> CommandQueue \<Rightarrow> bool" where
  "queue_inv h q \<longleftrightarrow>
     length (commands q) = 100 \<and> 0 \<le> front q \<and> front q < 100 \<and>
     count q = int (length (queue_addrs q)) \<and> length (queue_addrs q) \<le> 100 \<and>
     rear q = (front q + count q) mod 100 \<and>
     rotate (nat (front q)) (commands q) =
       map Some (queue_addrs q) @ replicate (100 - length (queue_addrs q)) None \<and>
     distinct (queue_addrs q) \<and> set (queue_addrs q) \<subseteq> dom h"

text \<open>The queue owns the heap: the allocated commands are exactly those queued.\<close>

definition queue_owns :: "cmd_heap \<Rightarrow> CommandQueue \<Rightarrow> bool" where
  "queue_owns h q \<longleftrightarrow> dom h = set (queue_addrs q)"

declare queue_owns_def [inv_defs]

lemma mod_add_inj:
  assumes "i < L" "n < L" "(m + i) mod L = (m + n) mod (L :: nat)"
  shows "i = n"
proof -
  from assms(3) have "int (m + i) mod int L = int (m + n) mod int L"
    by (metis of_nat_mod)
  then have "int L dvd int i - int n" by (simp add: mod_eq_dvd_iff)
  moreover have "\<bar>int i - int n\<bar> < int L" using assms(1,2) by linarith
  ultimately have "int i - int n = 0" by (meson dvd_imp_le_int not_less abs_of_nat order_trans abs_le_iff)
  then show ?thesis by simp
qed

lemma rotate_update:
  assumes "n < length xs"
  shows "rotate m (xs[(m + n) mod length xs := v]) = (rotate m xs)[n := v]"
proof (rule nth_equalityI)
  fix i assume i: "i < length (rotate m (xs[(m + n) mod length xs := v]))"
  then have "(m + i) mod length xs = (m + n) mod length xs \<longleftrightarrow> i = n"
    using assms mod_add_inj [of i "length xs" n m] by auto
  moreover have "0 < length xs" using assms by linarith
  ultimately show "rotate m (xs[(m + n) mod length xs := v]) ! i = (rotate m xs)[n := v] ! i"
    using i assms by (auto simp: nth_rotate nth_list_update)
qed simp

lemma queue_invI:
  assumes "length (commands q) = 100" "0 \<le> front q" "front q < 100"
    "count q = int (length ps)" "length ps \<le> 100" "rear q = (front q + count q) mod 100"
    "rotate (nat (front q)) (commands q) = map Some ps @ replicate (100 - length ps) None"
    "distinct ps" "set ps \<subseteq> dom h"
  shows "queue_addrs q = ps" and "queue_inv h q"
proof -
  show "queue_addrs q = ps" using assms by (simp add: queue_addrs_def comp_def)
  with assms show "queue_inv h q" by (simp add: queue_inv_def)
qed

lemma queue_inv_rear:
  assumes "queue_inv h q"
  shows "nat (rear q) = (nat (front q) + length (queue_addrs q)) mod 100" "0 \<le> rear q" "rear q < 100"
  using assms by (simp_all add: queue_inv_def nat_mod_distrib nat_add_distrib)

lemma in_int_small: "- 1000 \<le> x \<Longrightarrow> x \<le> 1000 \<Longrightarrow> in_int x"
  by (simp add: int_range_defs)

section \<open>The operations on what the ring holds\<close>

lemma queue_init_inv: "queue_inv h (queue_init q)" "queue_addrs (queue_init q) = []"
  using queue_invI [of "queue_init q" "[]" h]
  by (simp_all add: queue_init_def MAX_QUEUE_SIZE_def)

lemma queue_push_full:
  assumes "queue_inv h q" "length (queue_addrs q) = 100"
  shows "queue_push m cmd h q = Inr (False, h, q)"
  using assms by (simp add: queue_push_def MAX_QUEUE_SIZE_def queue_inv_def)

lemma queue_push_no_memory: "queue_push None cmd h q = Inr (False, h, q)"
  by (simp add: queue_push_def)

lemma queue_push_room:
  assumes inv: "queue_inv h q" and room: "length (queue_addrs q) < 100" and fresh: "p \<notin> dom h"
  obtains q' where "queue_push (Some p) cmd h q = Inr (True, h(p \<mapsto> cmd), q')"
    "queue_inv (h(p \<mapsto> cmd)) q'" "queue_addrs q' = queue_addrs q @ [p]"
proof -
  let ?n = "length (queue_addrs q)"
  let ?cs = "(commands q)[nat (rear q) := Some p]"
  let ?q = "q\<lparr>commands := ?cs, rear := (rear q + 1) mod 100, count := count q + 1\<rparr>"
  have rear: "rear q = (front q + count q) mod 100" using inv by (simp only: queue_inv_def)
  have q: "length (commands q) = 100" "count q = int ?n" "0 \<le> front q" "front q < 100"
    "rotate (nat (front q)) (commands q) = map Some (queue_addrs q) @ replicate (100 - ?n) None"
    using inv by (simp_all add: queue_inv_def)
  have push: "queue_push (Some p) cmd h q = Inr (True, h(p \<mapsto> cmd), ?q)"
    using queue_inv_rear [OF inv] q room
    by (simp add: queue_push_def MAX_QUEUE_SIZE_def array_set_def add_int_def in_int_small)
  have "rotate (nat (front q)) ?cs = (rotate (nat (front q)) (commands q))[?n := Some p]"
    using rotate_update [of ?n "commands q" "nat (front q)" "Some p"] queue_inv_rear(1) [OF inv] q room
    by simp
  also have "\<dots> = map Some (queue_addrs q @ [p]) @ replicate (100 - Suc ?n) None"
    using room by (cases "100 - ?n") (simp_all add: q list_update_append flip: Suc_diff_Suc)
  finally have rot: "rotate (nat (front q)) ?cs =
      map Some (queue_addrs q @ [p]) @ replicate (100 - Suc ?n) None" .
  have rear': "(rear q + 1) mod 100 = (front q + (count q + 1)) mod 100"
    by (simp only: rear mod_add_left_eq add.assoc)
  have own: "distinct (queue_addrs q @ [p])" "set (queue_addrs q @ [p]) \<subseteq> dom (h(p \<mapsto> cmd))"
    using inv fresh unfolding queue_inv_def by auto
  have "queue_addrs ?q = queue_addrs q @ [p] \<and> queue_inv (h(p \<mapsto> cmd)) ?q"
    by (intro conjI queue_invI [of ?q "queue_addrs q @ [p]"])
      (use q rot rear' own room in \<open>simp_all only: CommandQueue.simps length_list_update\<close>, simp_all)
  with push that show thesis by blast
qed

lemma queue_pop_empty:
  assumes "queue_inv h q" "queue_addrs q = []"
  shows "queue_pop q = Inr (None, q)"
  using assms by (simp add: queue_pop_def queue_inv_def)

lemma queue_pop_Cons:
  assumes inv: "queue_inv h q" and addrs: "queue_addrs q = p # ps"
  obtains q' where "queue_pop q = Inr (Some p, q')" "queue_inv h q'" "queue_addrs q' = ps"
proof -
  let ?f = "nat (front q)"
  let ?cs = "(commands q)[?f := None]"
  let ?q = "q\<lparr>commands := ?cs, front := (front q + 1) mod 100, count := count q - 1\<rparr>"
  have rear: "rear q = (front q + count q) mod 100" using inv by (simp only: queue_inv_def)
  have q: "length (commands q) = 100" "0 \<le> front q" "front q < 100" "count q = int (Suc (length ps))"
    "rotate ?f (commands q) = Some p # map Some ps @ replicate (100 - Suc (length ps)) None"
    "Suc (length ps) \<le> 100"
    using inv addrs by (simp_all add: queue_inv_def)
  have "commands q ! ?f = rotate ?f (commands q) ! 0"
    using q by (subst nth_rotate) auto
  then have pop: "queue_pop q = Inr (Some p, ?q)"
    using q by (simp add: queue_pop_def MAX_QUEUE_SIZE_def array_get_def array_set_def add_int_def
        in_int_small)
  have "rotate ?f ?cs = (rotate ?f (commands q))[0 := None]"
    using rotate_update [of 0 "commands q" ?f None] q by simp
  then have "rotate (Suc ?f) ?cs = map Some ps @ replicate (100 - Suc (length ps)) None @ [None]"
    by (simp add: q)
  also have "\<dots> = map Some ps @ replicate (100 - length ps) None"
    using q(6) by (simp add: replicate_append_same flip: replicate_Suc Suc_diff_le)
  finally have "rotate (Suc ?f) ?cs = map Some ps @ replicate (100 - length ps) None" .
  moreover have "nat ((front q + 1) mod 100) = Suc ?f mod length ?cs"
    using q by (simp add: nat_mod_distrib nat_add_distrib)
  ultimately have "rotate (nat ((front q + 1) mod 100)) ?cs =
      map Some ps @ replicate (100 - length ps) None"
    by (simp only: rotate_conv_mod [symmetric])
  moreover have "rear q = ((front q + 1) mod 100 + (count q - 1)) mod 100"
    by (simp add: rear mod_add_left_eq)
  ultimately have "queue_addrs ?q = ps" "queue_inv h ?q"
    using queue_invI [of ?q ps h] q inv addrs by (simp_all add: queue_inv_def)
  with pop that show thesis by blast
qed

lemma queue_inv_heap: "queue_inv h q \<Longrightarrow> set (queue_addrs q) \<subseteq> dom h' \<Longrightarrow> queue_inv h' q"
  unfolding queue_inv_def by simp

lemma queue_inv_distinct: "queue_inv h q \<Longrightarrow> distinct (queue_addrs q)"
  unfolding queue_inv_def by simp

lemma queue_inv_subset: "queue_inv h q \<Longrightarrow> set (queue_addrs q) \<subseteq> dom h"
  unfolding queue_inv_def by simp

lemma queue_inv_length: "queue_inv h q \<Longrightarrow> length (queue_addrs q) \<le> 100"
  unfolding queue_inv_def by simp

lemma queue_inv_live: "queue_inv h q \<Longrightarrow> p \<in> set (queue_addrs q) \<Longrightarrow> \<exists>cmd. h p = Some cmd"
  using queue_inv_subset [of h q] by auto

lemma queue_is_empty_addrs: "queue_inv h q \<Longrightarrow> queue_is_empty q \<longleftrightarrow> queue_addrs q = []"
  unfolding queue_inv_def queue_is_empty_def by simp

lemma free_cmd_live: "h p = Some cmd \<Longrightarrow> free_cmd p h = Inr (h(p := None))"
  by (simp add: free_cmd_def)

text \<open>Taking the oldest command out and freeing it leaves a queue that owns the rest.\<close>

lemma queue_inv_free:
  assumes "queue_inv h q" "queue_addrs q = ps" "p \<notin> set ps"
  shows "queue_inv (h(p := None)) q"
  by (rule queue_inv_heap [OF assms(1)]) (use assms queue_inv_subset [OF assms(1)] in auto)

section \<open>Cleaning up\<close>

lemma queue_cleanup_frees:
  assumes "queue_inv h q"
  shows "\<exists>h' q'. queue_cleanup h q = Some (Inr (h', q')) \<and>
     h' = h |` (- set (queue_addrs q)) \<and> queue_inv h' q' \<and> queue_addrs q' = []"
  using assms
proof (induction "queue_addrs q" arbitrary: h q)
  case Nil
  then have "queue_cleanup h q = Some (Inr (h, q))"
    by (simp add: queue_cleanup.simps [of h q] queue_is_empty_addrs)
  with Nil show ?case by (simp add: restrict_map_def)
next
  case (Cons p ps)
  obtain q' where q': "queue_pop q = Inr (Some p, q')" "queue_inv h q'" "queue_addrs q' = ps"
    using queue_pop_Cons [OF Cons.prems Cons.hyps(2) [symmetric]] .
  obtain cmd where "h p = Some cmd"
    using queue_inv_live [OF Cons.prems, of p] Cons.hyps(2) by (metis list.set_intros(1))
  then have "queue_cleanup h q = queue_cleanup (h(p := None)) q'"
    using Cons.prems Cons.hyps(2) [symmetric] q'
    by (simp add: queue_cleanup.simps [of h q] queue_is_empty_addrs free_cmd_live)
  moreover have "p \<notin> set ps"
    using queue_inv_distinct [OF Cons.prems] Cons.hyps(2) by (metis distinct.simps(2))
  then have "queue_inv (h(p := None)) q'" using q' by (intro queue_inv_free) auto
  from Cons.hyps(1) [OF q'(3) [symmetric] this] obtain h' q'' where
    "queue_cleanup (h(p := None)) q' = Some (Inr (h', q''))"
    "h' = h(p := None) |` (- set ps)" "queue_inv h' q''" "queue_addrs q'' = []"
    using q'(3) by auto
  moreover have "h(p := None) |` (- set ps) = h |` (- set (queue_addrs q))"
    by (auto simp: restrict_map_def fun_eq_iff Cons.hyps(2) [symmetric])
  ultimately show ?case by auto
qed

section \<open>The queue as an interface\<close>

text \<open>
  What the threads of the server rely on: a bounded queue of items, each named by the pointer
  the client gets back. \<open>avail\<close> says that a pointer may be used for a new item.
\<close>

datatype ('p, 'a) queue_op = Push 'p 'a | Pop

locale bounded_fifo =
  fixes push :: "'p \<Rightarrow> 'a \<Rightarrow> 's \<Rightarrow> (bool \<times> 's) checked"
    and pop :: "'s \<Rightarrow> ('p option \<times> 's) checked"
    and items :: "'s \<Rightarrow> ('p \<times> 'a) list"
    and invar :: "'s \<Rightarrow> bool"
    and avail :: "'p \<Rightarrow> 's \<Rightarrow> bool"
    and cap :: nat
  assumes push_room: "invar s \<Longrightarrow> length (items s) < cap \<Longrightarrow> avail p s \<Longrightarrow>
      \<exists>s'. push p a s = Inr (True, s') \<and> invar s' \<and> items s' = items s @ [(p, a)] \<and>
        (\<forall>p'. p' \<noteq> p \<longrightarrow> avail p' s \<longrightarrow> avail p' s')"
    and push_full: "invar s \<Longrightarrow> length (items s) = cap \<Longrightarrow> push p a s = Inr (False, s)"
    and pop_item: "invar s \<Longrightarrow> items s = (p, a) # rest \<Longrightarrow>
      \<exists>s'. pop s = Inr (Some p, s') \<and> invar s' \<and> items s' = rest \<and>
        (\<forall>p'. avail p' s \<longrightarrow> avail p' s')"
    and pop_nothing: "invar s \<Longrightarrow> items s = [] \<Longrightarrow> pop s = Inr (None, s)"
    and bounded: "invar s \<Longrightarrow> length (items s) \<le> cap"
begin

text \<open>The pointers that a sequence of operations takes out, run on the implementation ...\<close>

fun taken :: "('p, 'a) queue_op list \<Rightarrow> 's \<Rightarrow> 'p option list checked" where
  "taken [] s = Inr []"
| "taken (Push p a # ops) s = checked_bind (push p a s) (\<lambda>(_, s'). taken ops s')"
| "taken (Pop # ops) s =
     checked_bind (pop s) (\<lambda>(r, s'). checked_bind (taken ops s') (\<lambda>rs. Inr (r # rs)))"

text \<open>... and on a list of at most \<open>cap\<close> pointers.\<close>

fun taken_spec :: "('p, 'a) queue_op list \<Rightarrow> 'p list \<Rightarrow> 'p option list" where
  "taken_spec [] xs = []"
| "taken_spec (Push p a # ops) xs = taken_spec ops (if length xs < cap then xs @ [p] else xs)"
| "taken_spec (Pop # ops) [] = None # taken_spec ops []"
| "taken_spec (Pop # ops) (x # xs) = Some x # taken_spec ops xs"

fun pushed :: "('p, 'a) queue_op list \<Rightarrow> 'p list" where
  "pushed [] = []"
| "pushed (Push p a # ops) = p # pushed ops"
| "pushed (Pop # ops) = pushed ops"

lemma taken_refines:
  assumes "invar s" "distinct (pushed ops)" "\<forall>p \<in> set (pushed ops). avail p s"
  shows "taken ops s = Inr (taken_spec ops (map fst (items s)))"
  using assms
proof (induction ops arbitrary: s)
  case (Cons x ops)
  show ?case
  proof (cases x)
    case (Push p a)
    show ?thesis
    proof (cases "length (items s) < cap")
      case True
      with push_room [of s p a] Cons.prems Push obtain s' where "push p a s = Inr (True, s')"
        "invar s'" "items s' = items s @ [(p, a)]" "\<forall>p'. p' \<noteq> p \<longrightarrow> avail p' s \<longrightarrow> avail p' s'"
        by auto
      with Cons.IH [of s'] Cons.prems Push True show ?thesis by fastforce
    next
      case False
      with bounded [of s] Cons.prems(1) have "length (items s) = cap" by simp
      with push_full [OF Cons.prems(1) this] Cons.IH [of s] Cons.prems Push show ?thesis by simp
    qed
  next
    case Pop
    show ?thesis
    proof (cases "items s")
      case Nil
      with pop_nothing [OF Cons.prems(1)] Cons.IH [of s] Cons.prems Pop show ?thesis by simp
    next
      case (Cons pa rest)
      obtain p a where "pa = (p, a)" by (cases pa)
      with pop_item [OF Cons.prems(1), of p a rest] Cons obtain s' where "pop s = Inr (Some p, s')"
        "invar s'" "items s' = rest" "\<forall>p'. avail p' s \<longrightarrow> avail p' s'" by auto
      with Cons.IH [of s'] Cons.prems Pop Cons \<open>pa = (p, a)\<close> show ?thesis by auto
    qed
  qed
qed simp

end

text \<open>The ring of \<^verbatim>\<open>command_queue.c\<close>, with its heap, is such a queue.\<close>

definition ring_push :: "addr \<Rightarrow> Command \<Rightarrow> cmd_heap \<times> CommandQueue \<Rightarrow>
    (bool \<times> cmd_heap \<times> CommandQueue) checked" where
  "ring_push p cmd s = queue_push (Some p) cmd (fst s) (snd s)"

definition ring_pop :: "cmd_heap \<times> CommandQueue \<Rightarrow>
    (addr option \<times> cmd_heap \<times> CommandQueue) checked" where
  "ring_pop s = checked_bind (queue_pop (snd s)) (\<lambda>(p, q). Inr (p, fst s, q))"

lemma queue_items_push:
  assumes "queue_inv h q" "p \<notin> dom h" "queue_addrs q' = queue_addrs q @ [p]"
  shows "queue_items (h(p \<mapsto> cmd)) q' = queue_items h q @ [(p, cmd)]"
  using assms queue_inv_subset [OF assms(1)] by (auto simp: queue_items_def)

interpretation ring: bounded_fifo ring_push ring_pop "\<lambda>(h, q). queue_items h q"
  "\<lambda>(h, q). queue_inv h q" "\<lambda>p (h, q). p \<notin> dom h" 100
proof (unfold_locales, goal_cases)
  case (1 s p a)
  obtain h q where s: "s = (h, q)" by (cases s)
  with 1 have "queue_inv h q" "length (queue_addrs q) < 100" "p \<notin> dom h"
    by (simp_all add: queue_items_def)
  then obtain q' where "queue_push (Some p) a h q = Inr (True, h(p \<mapsto> a), q')"
    "queue_inv (h(p \<mapsto> a)) q'" "queue_addrs q' = queue_addrs q @ [p]"
    by (rule queue_push_room)
  with 1 s queue_items_push [of h q p q' a] show ?case by (auto simp: ring_push_def)
next
  case (2 s p a)
  then show ?case by (cases s) (simp add: ring_push_def queue_items_def queue_push_full)
next
  case (3 s p a rest)
  obtain h q where s: "s = (h, q)" by (cases s)
  with 3 obtain ps where "queue_addrs q = p # ps" "rest = map (\<lambda>p. (p, the (h p))) ps"
    by (auto simp: queue_items_def)
  moreover from this(1) 3 s obtain q' where
    "queue_pop q = Inr (Some p, q')" "queue_inv h q'" "queue_addrs q' = ps"
    using queue_pop_Cons [of h q p ps] by auto
  ultimately show ?case using s by (auto simp: ring_pop_def queue_items_def)
next
  case (4 s)
  then show ?case by (cases s) (simp add: ring_pop_def queue_items_def queue_pop_empty)
next
  case (5 s)
  then show ?case by (cases s) (simp add: queue_items_def queue_inv_length)
qed

section \<open>Properties\<close>

lemma queue_init_items [simp]: "queue_items Map.empty (queue_init q) = []"
  by (simp add: queue_items_def queue_init_inv)

text \<open>
  C1. The ring is a bounded first-in first-out queue: for any sequence of pushes and pops on a
  fresh queue, with allocations at different addresses, the pointers that \<^verbatim>\<open>queue_pop\<close>
  returns are those of a list that takes new elements at its end while it has fewer than 100,
  refuses them otherwise, and gives them back from its front. No operation indexes outside the
  array or overflows.
\<close>

theorem queue_refines_fifo:
  assumes "distinct (ring.pushed ops)"
  shows "ring.taken ops (Map.empty, queue_init q) = Inr (ring.taken_spec ops [])"
  using ring.taken_refines [of "(Map.empty, queue_init q)" ops] assms
  by (simp add: queue_init_inv)

theorem queue_refines_fifo_witness:
  "ring.taken [Push 7 \<lparr>cmd_type = CMD_LED_ON, param1 = 0, param2 = 0\<rparr>, Pop, Pop,
       Push 8 \<lparr>cmd_type = CMD_LED_OFF, param1 = 0, param2 = 0\<rparr>,
       Push 9 \<lparr>cmd_type = CMD_BUZZER_ON, param1 = 2, param2 = 0\<rparr>, Pop]
     (Map.empty, queue_init \<lparr>commands = [], front = 3, rear = 4, count = 5\<rparr>) =
   Inr [Some 7, None, Some 8]"
  by (subst queue_refines_fifo) simp_all

lemma queue_cleanup_empties:
  assumes "queue_inv h q" "queue_owns h q"
  shows "\<exists>q'. queue_cleanup h q = Some (Inr (Map.empty, q')) \<and> queue_is_empty q'"
proof -
  obtain h' q' where "queue_cleanup h q = Some (Inr (h', q'))" "h' = h |` (- set (queue_addrs q))"
    "queue_inv h' q'" "queue_addrs q' = []"
    using queue_cleanup_frees [OF assms(1)] by blast
  moreover from this(2) assms(2) have "h' = Map.empty"
    by (auto simp: queue_owns_def restrict_map_def fun_eq_iff)
  ultimately show ?thesis by (auto simp: queue_is_empty_addrs)
qed

text \<open>
  C27. \<^verbatim>\<open>queue_cleanup\<close> ends, frees every queued command exactly once (a second free would be
  a fault) and, when the queue owns the allocated commands, leaves none behind.
\<close>

theorem queue_cleanup_no_leak:
  assumes "queue_inv h q" "queue_owns h q"
  shows "\<exists>q'. queue_cleanup h q = Some (Inr (Map.empty, q')) \<and> queue_is_empty q'"
  by (rule queue_cleanup_empties [OF assms])

lemma queue_one:
  obtains q where "queue_push (Some p) cmd Map.empty (queue_init q0) = Inr (True, [p \<mapsto> cmd], q)"
    "queue_inv [p \<mapsto> cmd] q" "queue_addrs q = [p]"
  using queue_push_room [OF queue_init_inv(1) [of Map.empty q0], of p cmd] queue_init_inv(2) [of q0]
  by auto

theorem queue_cleanup_no_leak_witness:
  "\<exists>h q q'. queue_push (Some 5) \<lparr>cmd_type = CMD_LED_ON, param1 = 0, param2 = 0\<rparr> Map.empty
       (queue_init \<lparr>commands = [], front = 0, rear = 0, count = 0\<rparr>) = Inr (True, h, q) \<and>
     queue_cleanup h q = Some (Inr (Map.empty, q'))"
proof -
  let ?c = "\<lparr>cmd_type = CMD_LED_ON, param1 = 0, param2 = 0\<rparr>"
  obtain q where "queue_push (Some 5) ?c Map.empty
      (queue_init \<lparr>commands = [], front = 0, rear = 0, count = 0\<rparr>) = Inr (True, [5 \<mapsto> ?c], q)"
    "queue_inv [5 \<mapsto> ?c] q" "queue_addrs q = [5]"
    by (rule queue_one)
  moreover from this have "queue_owns [5 \<mapsto> ?c] q" by (simp add: queue_owns_def)
  ultimately show ?thesis using queue_cleanup_no_leak [of "[5 \<mapsto> ?c]" q] by blast
qed

end
