(* ===== verification/Device_Control.thy ===== *)
theory Device_Control
  imports C_Text Led Light_Sensor Segment7 Buzzer Command_Queue
begin

text \<open>
  The device control thread, \<^verbatim>\<open>server_src/device_control.c\<close>, on the server state of
  \<^verbatim>\<open>server.h\<close>: one handler per command, the light-sensor automaton, and one pass of the
  thread's loops. The state \<open>node\<close> joins the server state, the heap of commands, and the
  four device libraries with their background threads. A handler runs here without
  interruption; its calls into the libraries are the libraries' own definitions.
\<close>

section \<open>The server state\<close>

record CommandResponse =
  status :: c_int
  message :: string
  resp_value :: c_int

text \<open>
  \<^verbatim>\<open>ServerState\<close> without its mutexes, condition variables and thread handles. The field
  \<^verbatim>\<open>led_on\<close> is \<open>state_led_on\<close> here, because \<open>led_on\<close> is the library's function.
\<close>

record ServerState =
  cmd_queue :: CommandQueue
  state_led_on :: bool
  led_brightness :: c_int
  buzzer_playing :: bool
  sensor_monitoring :: bool
  segment_counting :: bool
  response :: CommandResponse
  server_running :: bool
  server_socket :: c_int
  client_socket :: c_int
  client_connected :: bool
  web_server_pid :: c_int
  server_ip :: string

text \<open>
  The process: the server state, the heap of commands, the libraries, the static variable
  \<^verbatim>\<open>last_bright_state\<close> of the sensor handler, and whether \<^verbatim>\<open>g_state\<close> has been set.
\<close>

record node =
  srv :: ServerState
  cmds :: cmd_heap
  leds :: led_lib
  sensor :: sensor_lib
  seg :: seg7_sys
  buz :: buzzer_sys
  last_bright_state :: bool
  g_state_set :: bool

text \<open>Updates of the server state inside the node, as the critical sections make them.\<close>

definition upd_srv :: "(ServerState \<Rightarrow> ServerState) \<Rightarrow> node \<Rightarrow> node" where
  "upd_srv f n = n\<lparr>srv := f (srv n)\<rparr>"

text \<open>
  \<^verbatim>\<open>play_music_async\<close> and \<^verbatim>\<open>seg7_counting\<close> called from the server: the thread they start
  joins the library's threads.
\<close>

definition node_play :: "os_env \<Rightarrow> c_int \<Rightarrow> node \<Rightarrow> c_int \<times> node" where
  "node_play env music n =
     (case play_music_async env music (buzzer (buz n)) of
        (r, b, None) \<Rightarrow> (r, n\<lparr>buz := (buz n)\<lparr>buzzer := b\<rparr>\<rparr>)
      | (r, b, Some d) \<Rightarrow>
          (r, n\<lparr>buz := (buz n)\<lparr>buzzer := b, players := players (buz n) @ [music_thread_start d]\<rparr>\<rparr>))"

definition node_count :: "os_env \<Rightarrow> c_int \<Rightarrow> node \<Rightarrow> c_int \<times> node" where
  "node_count env seconds n =
     (case seg7_counting env seconds True (seg7 (seg n)) of
        (r, s, None) \<Rightarrow> (r, n\<lparr>seg := (seg n)\<lparr>seg7 := s\<rparr>\<rparr>)
      | (r, s, Some p) \<Rightarrow>
          (r, n\<lparr>seg := (seg n)\<lparr>seg7 := s, counters := counters (seg n) @ [counting_thread_start p]\<rparr>\<rparr>))"

definition ok_response :: "string \<Rightarrow> CommandResponse \<Rightarrow> CommandResponse" where
  "ok_response msg r = r\<lparr>status := 0, message := msg\<rparr>"

definition error_response :: "string \<Rightarrow> CommandResponse \<Rightarrow> CommandResponse" where
  "error_response msg r = r\<lparr>status := - 1, message := msg\<rparr>"

section \<open>The handlers\<close>

definition countdown_complete_callback :: "os_env \<Rightarrow> node \<Rightarrow> node" where
  "countdown_complete_callback env n =
     (if g_state_set n then
        snd (node_play env MUSIC_SCHOOL_BELL (upd_srv (\<lambda>s. s\<lparr>segment_counting := False\<rparr>) n))
      else n)"

definition process_led_on :: "node \<Rightarrow> CommandResponse \<Rightarrow> node \<times> CommandResponse" where
  "process_led_on n r =
     (let (ret, l) = led_on (leds n); n1 = n\<lparr>leds := l\<rparr>
      in if ret = 0 then
           (upd_srv (\<lambda>s. s\<lparr>state_led_on := True\<rparr>) n1, ok_response ''LED turned ON'' r)
         else (n1, error_response ''Failed to turn ON LED'' r))"

definition process_led_off :: "node \<Rightarrow> CommandResponse \<Rightarrow> node \<times> CommandResponse" where
  "process_led_off n r =
     (let (ret, l) = led_off (leds n); n1 = n\<lparr>leds := l\<rparr>
      in if ret = 0 then
           (upd_srv (\<lambda>s. s\<lparr>state_led_on := False\<rparr>) n1, ok_response ''LED turned OFF'' r)
         else (n1, error_response ''Failed to turn OFF LED'' r))"

definition process_set_brightness ::
  "node \<Rightarrow> Command \<Rightarrow> CommandResponse \<Rightarrow> node \<times> CommandResponse" where
  "process_set_brightness n cmd r =
     (if param1 cmd < LED_BRIGHTNESS_LOW \<or> param1 cmd > LED_BRIGHTNESS_HIGH then
        (n, error_response (''Invalid brightness level: '' @ fmt_d (param1 cmd) @ '' (use 1-3)'') r)
      else
        let (ret, l) = led_set_brightness (param1 cmd) (leds n); n1 = n\<lparr>leds := l\<rparr>
        in if ret = 0 then
             (upd_srv (\<lambda>s. s\<lparr>led_brightness := param1 cmd\<rparr>) n1,
              ok_response (''Brightness set to '' @ fmt_d (param1 cmd)) r)
           else (n1, error_response ''Failed to set brightness'' r))"

definition process_buzzer_on ::
  "os_env \<Rightarrow> node \<Rightarrow> Command \<Rightarrow> CommandResponse \<Rightarrow> node \<times> CommandResponse" where
  "process_buzzer_on env n cmd r =
     (let music_num =
        (if param1 cmd < MUSIC_SCHOOL_BELL \<or> param1 cmd > MUSIC_BUTTERFLY
         then MUSIC_SCHOOL_BELL else param1 cmd)
      in if is_music_playing (buzzer (buz n)) \<noteq> 0 then
           (n, error_response ''Music already playing'' r)
         else
           let (ret, n1) = node_play env music_num n
           in if ret = 0 then
                (upd_srv (\<lambda>s. s\<lparr>buzzer_playing := True\<rparr>) n1,
                 ok_response (''Playing music '' @ fmt_d music_num) r)
              else (n1, error_response ''Failed to start music'' r))"

definition process_buzzer_off :: "node \<Rightarrow> CommandResponse \<Rightarrow> node \<times> CommandResponse" where
  "process_buzzer_off n r =
     (if is_music_playing (buzzer (buz n)) = 0 then (n, error_response ''No music playing'' r)
      else
        let (ret, b) = stop_music (buzzer (buz n)); n1 = n\<lparr>buz := (buz n)\<lparr>buzzer := b\<rparr>\<rparr>
        in if ret = 0 then
             (upd_srv (\<lambda>s. s\<lparr>buzzer_playing := False\<rparr>) n1, ok_response ''Music stopped'' r)
           else (n1, error_response ''Failed to stop music'' r))"

definition process_sensor_on :: "node \<Rightarrow> CommandResponse \<Rightarrow> node \<times> CommandResponse" where
  "process_sensor_on n r =
     (upd_srv (\<lambda>s. s\<lparr>sensor_monitoring := True\<rparr>) n, ok_response ''Sensor monitoring started'' r)"

definition process_sensor_off :: "node \<Rightarrow> CommandResponse \<Rightarrow> node \<times> CommandResponse" where
  "process_sensor_off n r =
     (upd_srv (\<lambda>s. s\<lparr>sensor_monitoring := False\<rparr>) n, ok_response ''Sensor monitoring stopped'' r)"

definition process_segment_display ::
  "os_env \<Rightarrow> node \<Rightarrow> Command \<Rightarrow> CommandResponse \<Rightarrow> node \<times> CommandResponse" where
  "process_segment_display env n cmd r =
     (if param1 cmd < 1 \<or> param1 cmd > 9 then
        (n, error_response (''Invalid countdown seconds: '' @ fmt_d (param1 cmd) @ '' (use 1-9)'') r)
      else if segment_counting (srv n) then
        (n, error_response ''Countdown already in progress'' r)
      else
        let n1 = upd_srv (\<lambda>s. s\<lparr>segment_counting := True\<rparr>) n;
            (ret, n2) = node_count env (param1 cmd) n1
        in if ret = 0 then
             (n2, ok_response (''Countdown started from '' @ fmt_d (param1 cmd) @
                               '' (will play music at 0)'') r)
           else (upd_srv (\<lambda>s. s\<lparr>segment_counting := False\<rparr>) n2,
                 error_response ''Failed to start countdown'' r))"

definition process_segment_stop :: "node \<Rightarrow> CommandResponse \<Rightarrow> node \<times> CommandResponse" where
  "process_segment_stop n r =
     (let was_counting = segment_counting (srv n)
      in if \<not> was_counting then (n, error_response ''No countdown in progress'' r)
         else
           let (ret, s7) = seg7_stop_counting (seg7 (seg n)); n1 = n\<lparr>seg := (seg n)\<lparr>seg7 := s7\<rparr>\<rparr>
           in if ret = 0 then
                (upd_srv (\<lambda>s. s\<lparr>segment_counting := False\<rparr>) n1, ok_response ''Countdown stopped'' r)
              else (n1, error_response ''Failed to stop countdown'' r))"

definition handle_sensor_monitoring :: "os_env \<Rightarrow> node \<Rightarrow> node" where
  "handle_sensor_monitoring env n =
     (let (is_bright, s) = light_sensor_is_bright (pin_level_read env) (sensor n);
          n1 = n\<lparr>sensor := s\<rparr>
      in if is_bright \<noteq> last_bright_state n1 then
           let n2 =
             (if is_bright then
                (if state_led_on (srv n1)
                 then upd_srv (\<lambda>s. s\<lparr>state_led_on := False\<rparr>) (n1\<lparr>leds := snd (led_off (leds n1))\<rparr>)
                 else n1)
              else
                (if \<not> state_led_on (srv n1)
                 then upd_srv (\<lambda>s. s\<lparr>state_led_on := True\<rparr>) (n1\<lparr>leds := snd (led_on (leds n1))\<rparr>)
                 else n1))
           in n2\<lparr>last_bright_state := is_bright\<rparr>
         else n1)"

section \<open>The thread\<close>

definition no_response :: CommandResponse where
  "no_response = \<lparr>status = 0, message = [], resp_value = 0\<rparr>"

text \<open>The \<^verbatim>\<open>switch\<close> of \<^verbatim>\<open>device_control_thread\<close>.\<close>

fun process_command :: "os_env \<Rightarrow> Command \<Rightarrow> node \<Rightarrow> node \<times> CommandResponse" where
  "process_command env cmd n =
     (case cmd_type cmd of
        CMD_LED_ON \<Rightarrow> process_led_on n no_response
      | CMD_LED_OFF \<Rightarrow> process_led_off n no_response
      | CMD_SET_BRIGHTNESS \<Rightarrow> process_set_brightness n cmd no_response
      | CMD_BUZZER_ON \<Rightarrow> process_buzzer_on env n cmd no_response
      | CMD_BUZZER_OFF \<Rightarrow> process_buzzer_off n no_response
      | CMD_SENSOR_ON \<Rightarrow> process_sensor_on n no_response
      | CMD_SENSOR_OFF \<Rightarrow> process_sensor_off n no_response
      | CMD_SEGMENT_DISPLAY \<Rightarrow> process_segment_display env n cmd no_response
      | CMD_SEGMENT_STOP \<Rightarrow> process_segment_stop n no_response
      | _ \<Rightarrow> (n, error_response ''Unknown command'' no_response))"

declare process_command.simps [simp del]

text \<open>The check for sensor monitoring that ends a pass of either loop.\<close>

definition check_monitoring :: "os_env \<Rightarrow> node \<Rightarrow> node" where
  "check_monitoring env n =
     (if sensor_monitoring (srv n) then handle_sensor_monitoring env n else n)"

definition free_node_cmd :: "addr \<Rightarrow> node \<Rightarrow> node checked" where
  "free_node_cmd p n = checked_bind (free_cmd p (cmds n)) (\<lambda>h. Inr (n\<lparr>cmds := h\<rparr>))"

text \<open>The pass that takes a command from the queue: from \<^verbatim>\<open>queue_pop\<close> to the loop's end.\<close>

definition device_command :: "os_env \<Rightarrow> node \<Rightarrow> node checked" where
  "device_command env n =
     checked_bind (queue_pop (cmd_queue (srv n))) (\<lambda>(cmd, q).
       let n0 = upd_srv (\<lambda>s. s\<lparr>cmd_queue := q\<rparr>) n
       in case cmd of
            None \<Rightarrow> Inr n0
          | Some p \<Rightarrow>
              (case cmds n0 p of
                 None \<Rightarrow> Inl BadPointer
               | Some c \<Rightarrow>
                   let (n1, r) = process_command env c n0
                   in if cmd_type c = CMD_BUZZER_ON \<and> status r = - 2 then free_node_cmd p n1
                      else
                        let n2 = (if status r \<noteq> - 2 then upd_srv (\<lambda>s. s\<lparr>response := r\<rparr>) n1 else n1)
                        in checked_bind (free_node_cmd p n2) (\<lambda>n3. Inr (check_monitoring env n3))))"

text \<open>
  One pass: nothing once the server stops; a timed wait on the empty queue followed by the
  monitoring check; or a command.
\<close>

definition device_pass :: "os_env \<Rightarrow> node \<Rightarrow> node checked" where
  "device_pass env n =
     (if \<not> server_running (srv n) then Inr n
      else if queue_is_empty (cmd_queue (srv n)) then Inr (check_monitoring env n)
      else device_command env n)"

definition device_thread_start :: "node \<Rightarrow> node" where
  "device_thread_start n = n\<lparr>g_state_set := True\<rparr>"

lemmas [handler_defs] = process_led_on_def process_led_off_def process_set_brightness_def
  process_buzzer_on_def process_buzzer_off_def process_sensor_on_def process_sensor_off_def
  process_segment_display_def process_segment_stop_def process_command.simps
  ok_response_def error_response_def no_response_def

section \<open>Invariants\<close>

text \<open>
  While the server runs, the LED library is initialised. An LED that the server has on record
  as on is lit; an LED that is lit is on record, or a brightness has been set some time before
  (which lights it unrecorded). The brightness on record is one of the three levels, or 0
  before the first. The invariants of the libraries hold: the LED's flag agrees with its pin,
  the buzzer's flag counts its playing threads, the display's flag has an owner. Nothing is
  said of \<^verbatim>\<open>buzzer_playing\<close>, which is only written, and of \<^verbatim>\<open>segment_counting\<close>.
\<close>

definition libs_ok :: "node \<Rightarrow> bool" where
  "libs_ok n \<longleftrightarrow>
     led_inv (leds n) \<and> led_is_initialized (leds n) \<and>
     (state_led_on (srv n) \<longrightarrow> led_state (leds n)) \<and>
     (led_state (leds n) \<longrightarrow> state_led_on (srv n) \<or> 1 \<le> led_brightness (srv n)) \<and>
     0 \<le> led_brightness (srv n) \<and> led_brightness (srv n) \<le> 3 \<and>
     buzzer_inv (buz n) \<and> flag_owned (seg n)"

definition queue_ok :: "node \<Rightarrow> bool" where
  "queue_ok n \<longleftrightarrow>
     queue_inv (cmds n) (cmd_queue (srv n)) \<and> queue_owns (cmds n) (cmd_queue (srv n))"

lemma upd_srv_simps [simp]:
  "srv (upd_srv f n) = f (srv n)" "cmds (upd_srv f n) = cmds n" "leds (upd_srv f n) = leds n"
  "sensor (upd_srv f n) = sensor n" "seg (upd_srv f n) = seg n" "buz (upd_srv f n) = buz n"
  "last_bright_state (upd_srv f n) = last_bright_state n" "g_state_set (upd_srv f n) = g_state_set n"
  by (simp_all add: upd_srv_def)

lemma node_play_frame [simp]:
  "srv (snd (node_play env m n)) = srv n" "cmds (snd (node_play env m n)) = cmds n"
  "leds (snd (node_play env m n)) = leds n" "sensor (snd (node_play env m n)) = sensor n"
  "seg (snd (node_play env m n)) = seg n"
  "last_bright_state (snd (node_play env m n)) = last_bright_state n"
  "g_state_set (snd (node_play env m n)) = g_state_set n"
  by (simp_all add: node_play_def split: prod.splits option.splits)

lemma node_count_frame [simp]:
  "srv (snd (node_count env k n)) = srv n" "cmds (snd (node_count env k n)) = cmds n"
  "leds (snd (node_count env k n)) = leds n" "sensor (snd (node_count env k n)) = sensor n"
  "buz (snd (node_count env k n)) = buz n"
  "last_bright_state (snd (node_count env k n)) = last_bright_state n"
  "g_state_set (snd (node_count env k n)) = g_state_set n"
  by (simp_all add: node_count_def split: prod.splits option.splits)

text \<open>A call from the server is a step of the library's interleaving semantics.\<close>

lemma node_play_step: "buzzer_step pin (buz n) (buz (snd (node_play env m n)))"
  by (auto simp: node_play_def split: prod.splits option.splits
      intro: buzzer_step.do_play buzzer_step.do_play_refused)

lemma node_play_inv [simp]: "buzzer_inv (buz n) \<Longrightarrow> buzzer_inv (buz (snd (node_play env m n)))"
  by (rule buzzer_step_inv [OF node_play_step])

lemma node_count_owned [simp]: "flag_owned (seg n) \<Longrightarrow> flag_owned (seg (snd (node_count env k n)))"
  by (auto simp: node_count_def flag_owned_def split: prod.splits option.splits
      dest: seg7_counting_started seg7_counting_refused)

lemma stop_music_inv [simp]:
  "buzzer_inv S \<Longrightarrow> buzzer_inv (S\<lparr>buzzer := snd (stop_music (buzzer S))\<rparr>)"
  by (rule buzzer_step_inv [OF buzzer_step.do_stop_music])

lemma seg7_stop_owned [simp]:
  "flag_owned S \<Longrightarrow> flag_owned (S\<lparr>seg7 := snd (seg7_stop_counting (seg7 S))\<rparr>)"
  by (rule seg7_step_flag_owned [OF seg7_step.do_stop])

lemma led_ready_simps [simp]:
  "led_is_initialized l \<Longrightarrow> fst (led_on l) = 0"
  "led_is_initialized l \<Longrightarrow> fst (led_off l) = 0"
  "led_is_initialized l \<Longrightarrow> led_state (snd (led_on l))"
  "led_is_initialized l \<Longrightarrow> \<not> led_state (snd (led_off l))"
  "led_is_initialized (snd (led_on l)) = led_is_initialized l"
  "led_is_initialized (snd (led_off l)) = led_is_initialized l"
  "led_is_initialized (snd (led_set_brightness b l)) = led_is_initialized l"
  "led_state l \<Longrightarrow> led_state (snd (led_set_brightness b l))"
  "fst (led_set_brightness b l) \<noteq> 0 \<Longrightarrow> snd (led_set_brightness b l) = l"
  by (auto simp: led_on_def led_off_def led_set_brightness_def split: option.splits)

lemma handler_libs_ok:
  assumes "libs_ok n"
  shows "libs_ok (fst (process_led_on n r))" "libs_ok (fst (process_led_off n r))"
    "libs_ok (fst (process_set_brightness n cmd r))" "libs_ok (fst (process_buzzer_on env n cmd r))"
    "libs_ok (fst (process_buzzer_off n r))" "libs_ok (fst (process_sensor_on n r))"
    "libs_ok (fst (process_sensor_off n r))" "libs_ok (fst (process_segment_display env n cmd r))"
    "libs_ok (fst (process_segment_stop n r))"
  using assms
  by (simp_all add: libs_ok_def handler_defs Let_def split_beta led_inv_intros led_consts)

lemma process_command_libs_ok: "libs_ok n \<Longrightarrow> libs_ok (fst (process_command env cmd n))"
  by (cases "cmd_type cmd") (simp_all add: process_command.simps handler_libs_ok)

lemma process_command_frame [simp]:
  "cmds (fst (process_command env cmd n)) = cmds n"
  "cmd_queue (srv (fst (process_command env cmd n))) = cmd_queue (srv n)"
  "server_running (srv (fst (process_command env cmd n))) = server_running (srv n)"
  "response (srv (fst (process_command env cmd n))) = response (srv n)"
  by (cases "cmd_type cmd"; simp add: handler_defs Let_def split_beta)+

lemma handle_sensor_monitoring_libs_ok: "libs_ok n \<Longrightarrow> libs_ok (handle_sensor_monitoring env n)"
  by (auto simp: libs_ok_def handle_sensor_monitoring_def Let_def split_beta led_inv_intros)

lemma handle_sensor_monitoring_frame [simp]:
  "cmds (handle_sensor_monitoring env n) = cmds n"
  "cmd_queue (srv (handle_sensor_monitoring env n)) = cmd_queue (srv n)"
  "response (srv (handle_sensor_monitoring env n)) = response (srv n)"
  by (simp_all add: handle_sensor_monitoring_def Let_def split_beta)

lemma check_monitoring_libs_ok: "libs_ok n \<Longrightarrow> libs_ok (check_monitoring env n)"
  by (simp add: check_monitoring_def handle_sensor_monitoring_libs_ok)

lemma check_monitoring_frame [simp]:
  "cmds (check_monitoring env n) = cmds n"
  "cmd_queue (srv (check_monitoring env n)) = cmd_queue (srv n)"
  "response (srv (check_monitoring env n)) = response (srv n)"
  by (simp_all add: check_monitoring_def)

lemma countdown_callback_libs_ok: "libs_ok n \<Longrightarrow> libs_ok (countdown_complete_callback env n)"
  by (simp add: libs_ok_def countdown_complete_callback_def)

lemma libs_ok_cong [simp]:
  "libs_ok (n\<lparr>cmds := h\<rparr>) = libs_ok n"
  "libs_ok (upd_srv (\<lambda>s. s\<lparr>cmd_queue := q\<rparr>) n) = libs_ok n"
  "libs_ok (upd_srv (\<lambda>s. s\<lparr>response := r\<rparr>) n) = libs_ok n"
  by (simp_all add: libs_ok_def)

section \<open>Answers\<close>

text \<open>Every command is answered with success or failure; the code's -2 never occurs.\<close>

lemma process_command_status:
  "status (snd (process_command env cmd n)) = 0 \<or> status (snd (process_command env cmd n)) = - 1"
  by (cases "cmd_type cmd"; simp add: handler_defs Let_def split_beta)

lemma process_command_not_skipped [simp]: "status (snd (process_command env cmd n)) \<noteq> - 2"
  using process_command_status [of env cmd n] by auto

lemma device_command_Cons:
  assumes "queue_ok n" "queue_addrs (cmd_queue (srv n)) = p # ps" "cmds n p = Some c"
  obtains q where "queue_inv (cmds n) q" "queue_addrs q = ps" "queue_inv ((cmds n)(p := None)) q"
    "device_command env n =
       (let (n1, r) = process_command env c (upd_srv (\<lambda>s. s\<lparr>cmd_queue := q\<rparr>) n)
        in Inr (check_monitoring env
             ((upd_srv (\<lambda>s. s\<lparr>response := r\<rparr>) n1)\<lparr>cmds := (cmds n)(p := None)\<rparr>)))"
proof -
  from assms obtain q where q: "queue_pop (cmd_queue (srv n)) = Inr (Some p, q)"
    "queue_inv (cmds n) q" "queue_addrs q = ps"
    unfolding queue_ok_def using queue_pop_Cons by blast
  moreover have "p \<notin> set ps"
    using assms(1,2) unfolding queue_ok_def by (metis distinct.simps(2) queue_inv_distinct)
  then have "queue_inv ((cmds n)(p := None)) q" using q by (intro queue_inv_free) auto
  ultimately show thesis
    using assms(3) that
    by (simp add: device_command_def free_node_cmd_def free_cmd_def Let_def split_beta)
qed

lemma device_command_ok:
  assumes "queue_ok n" "libs_ok n" "queue_addrs (cmd_queue (srv n)) \<noteq> []"
  obtains n' where "device_command env n = Inr n'" "queue_ok n'" "libs_ok n'"
    "queue_addrs (cmd_queue (srv n')) = tl (queue_addrs (cmd_queue (srv n)))"
proof -
  obtain p ps where ps: "queue_addrs (cmd_queue (srv n)) = p # ps"
    using assms(3) by (cases "queue_addrs (cmd_queue (srv n))") auto
  moreover obtain c where c: "cmds n p = Some c"
    using queue_inv_live [of "cmds n" "cmd_queue (srv n)" p] assms(1) ps
    unfolding queue_ok_def by auto
  ultimately obtain q where q: "queue_addrs q = ps" "queue_inv ((cmds n)(p := None)) q"
    "device_command env n =
       (let (n1, r) = process_command env c (upd_srv (\<lambda>s. s\<lparr>cmd_queue := q\<rparr>) n)
        in Inr (check_monitoring env
             ((upd_srv (\<lambda>s. s\<lparr>response := r\<rparr>) n1)\<lparr>cmds := (cmds n)(p := None)\<rparr>)))"
    using device_command_Cons [OF assms(1)] by metis
  have "dom (cmds n) = set (p # ps)" "p \<notin> set ps"
    using assms(1) ps queue_inv_distinct [of "cmds n" "cmd_queue (srv n)"]
    unfolding queue_ok_def queue_owns_def by auto
  with q ps assms that process_command_libs_ok [of "upd_srv (\<lambda>s. s\<lparr>cmd_queue := q\<rparr>) n" env c]
  show thesis
    by (auto simp: split_beta Let_def queue_ok_def queue_owns_def check_monitoring_libs_ok)
qed

lemma device_pass_ok:
  assumes "queue_ok n" "libs_ok n"
  obtains n' where "device_pass env n = Inr n'" "queue_ok n'" "libs_ok n'"
proof (cases "server_running (srv n) \<and> \<not> queue_is_empty (cmd_queue (srv n))")
  case True
  then have "queue_addrs (cmd_queue (srv n)) \<noteq> []"
    using assms(1) queue_is_empty_addrs unfolding queue_ok_def by blast
  with True assms that show thesis
    by (metis device_command_ok device_pass_def)
next
  case False
  then have "device_pass env n = Inr n \<or> device_pass env n = Inr (check_monitoring env n)"
    by (auto simp: device_pass_def)
  with assms that show thesis
    by (auto simp: queue_ok_def check_monitoring_libs_ok)
qed

section \<open>What the handlers do\<close>

lemma record_same [simp]:
  "(n :: node)\<lparr>leds := leds n\<rparr> = n" "(n :: node)\<lparr>buz := buz n\<rparr> = n"
  "(n :: node)\<lparr>seg := seg n\<rparr> = n" "(n :: node)\<lparr>srv := srv n\<rparr> = n"
  "B\<lparr>buzzer := buzzer B\<rparr> = (B :: buzzer_sys)" "G\<lparr>seg7 := seg7 G\<rparr> = (G :: seg7_sys)"
  by simp_all

lemma process_command_queue_indep [simp]:
  "snd (process_command env c (upd_srv (\<lambda>s. s\<lparr>cmd_queue := q\<rparr>) n)) = snd (process_command env c n)"
  by (cases "cmd_type c")
    (simp_all add: handler_defs Let_def split_beta node_play_def node_count_def split: option.splits)

lemma process_command_heap_indep [simp]:
  "snd (process_command env c (n\<lparr>cmds := h\<rparr>)) = snd (process_command env c n)"
  by (cases "cmd_type c")
    (simp_all add: handler_defs Let_def split_beta node_play_def node_count_def split: option.splits)

text \<open>What a refused start of a melody or of a countdown leaves behind: nothing.\<close>

lemma node_play_refused:
  assumes "fst (node_play env m n) \<noteq> 0" "buzzer_inv (buz n)"
  shows "snd (node_play env m n) = n"
proof -
  obtain r b d where p: "play_music_async env m (buzzer (buz n)) = (r, b, d)"
    by (metis prod_cases3)
  with assms(1) have "d = None"
    by (cases d) (auto simp: node_play_def dest: play_music_async_started)
  with p assms(2) have "b = buzzer (buz n)"
    by (cases "buzzer (buz n)")
      (auto simp: play_music_async_def buzzer_inv_def Let_def split: if_splits option.splits)
  with p \<open>d = None\<close> show ?thesis by (simp add: node_play_def)
qed

lemma node_count_refused:
  assumes "fst (node_count env k n) \<noteq> 0"
  shows "snd (node_count env k n) = n"
proof -
  obtain r s p where c: "seg7_counting env k True (seg7 (seg n)) = (r, s, p)"
    by (metis prod_cases3)
  with assms have "p = None"
    by (cases p) (auto simp: node_count_def dest: seg7_counting_started)
  with c have "s = seg7 (seg n)" by (auto dest: seg7_counting_refused)
  with c \<open>p = None\<close> show ?thesis by (simp add: node_count_def)
qed

text \<open>A handler that reports failure has changed nothing.\<close>

lemma handler_refused:
  "status (snd (process_led_on n r)) \<noteq> 0 \<Longrightarrow> fst (process_led_on n r) = n"
  "status (snd (process_led_off n r)) \<noteq> 0 \<Longrightarrow> fst (process_led_off n r) = n"
  "status (snd (process_set_brightness n cmd r)) \<noteq> 0 \<Longrightarrow> fst (process_set_brightness n cmd r) = n"
  "status (snd (process_buzzer_off n r)) \<noteq> 0 \<Longrightarrow> fst (process_buzzer_off n r) = n"
  "status (snd (process_segment_stop n r)) \<noteq> 0 \<Longrightarrow> fst (process_segment_stop n r) = n"
  by (auto simp: handler_defs lib_defs split: option.splits if_splits)

lemma buzzer_on_refused:
  "buzzer_inv (buz n) \<Longrightarrow> status (snd (process_buzzer_on env n cmd r)) \<noteq> 0 \<Longrightarrow>
     fst (process_buzzer_on env n cmd r) = n"
  by (auto simp: process_buzzer_on_def Let_def split_beta ok_response_def node_play_refused)

lemma segment_display_refused:
  assumes "status (snd (process_segment_display env n cmd r)) \<noteq> 0"
  shows "fst (process_segment_display env n cmd r) = n"
proof (cases "param1 cmd < 1 \<or> param1 cmd > 9 \<or> segment_counting (srv n)")
  case False
  let ?n = "upd_srv (\<lambda>s. s\<lparr>segment_counting := True\<rparr>) n"
  have "fst (node_count env (param1 cmd) ?n) \<noteq> 0"
    using assms False by (auto simp: process_segment_display_def Let_def split_beta ok_response_def)
  with False node_count_refused [OF this] show ?thesis
    by (cases "srv n") (simp add: process_segment_display_def Let_def split_beta upd_srv_def)
qed (auto simp: process_segment_display_def)

text \<open>How long a message can be: every text of a handler fits \<^verbatim>\<open>message[256]\<close> with room.\<close>

lemma handler_message_fits:
  assumes "in_int (param1 c)"
  shows "length (message (snd (process_command env c n))) \<le> 80"
proof -
  have p: "length (fmt_d (param1 c)) \<le> 11" by (rule length_fmt_d [OF assms])
  have m: "length (fmt_d 1) \<le> 11" by (rule length_fmt_d) (simp add: int_range_defs)
  have "length (message (snd (process_set_brightness n c no_response))) \<le> 80"
    "length (message (snd (process_buzzer_on env n c no_response))) \<le> 80"
    "length (message (snd (process_segment_display env n c no_response))) \<le> 80"
    using p m
    by (simp_all add: handler_defs Let_def split_beta music_consts del: process_command.simps)
  then show ?thesis
    by (cases "cmd_type c") (simp_all add: process_command.simps process_led_on_def
      process_led_off_def process_buzzer_off_def process_sensor_on_def process_sensor_off_def
      process_segment_stop_def ok_response_def error_response_def Let_def split_beta)
qed

text \<open>The commands that a server whose LED library is initialised carries out.\<close>

definition accepted :: "os_env \<Rightarrow> Command \<Rightarrow> node \<Rightarrow> bool" where
  "accepted env c n =
     (case cmd_type c of
        CMD_SET_BRIGHTNESS \<Rightarrow> 1 \<le> param1 c \<and> param1 c \<le> 3
      | CMD_BUZZER_ON \<Rightarrow>
          \<not> is_playing (buzzer (buz n)) \<and> initialized (buzzer (buz n)) \<and> malloc_ok env \<and> thread_ok env
      | CMD_BUZZER_OFF \<Rightarrow> is_playing (buzzer (buz n))
      | CMD_SEGMENT_DISPLAY \<Rightarrow>
          1 \<le> param1 c \<and> param1 c \<le> 9 \<and> \<not> segment_counting (srv n) \<and>
          \<not> is_counting (seg7 (seg n)) \<and> seg7_is_initialized (seg7 (seg n)) \<and>
          malloc_ok env \<and> thread_ok env
      | CMD_SEGMENT_STOP \<Rightarrow> segment_counting (srv n)
      | CMD_EXIT \<Rightarrow> False
      | CMD_OTHER k \<Rightarrow> False
      | _ \<Rightarrow> True)"

lemma music_data_clamped:
  "\<exists>d. music_data (if m < MUSIC_SCHOOL_BELL \<or> m > MUSIC_BUTTERFLY then MUSIC_SCHOOL_BELL else m) = Some d"
  by (simp add: music_data_def music_consts)

lemma node_play_status:
  "fst (node_play env m n) =
     (if initialized (buzzer (buz n)) \<and> \<not> is_playing (buzzer (buz n)) \<and> malloc_ok env \<and>
         music_data m \<noteq> None \<and> thread_ok env then 0 else - 1)"
  by (auto simp: node_play_def play_music_async_def Let_def split: option.splits)

lemma node_count_status:
  "fst (node_count env k n) =
     (if seg7_is_initialized (seg7 (seg n)) \<and> 0 \<le> k \<and> k \<le> 9 \<and> \<not> is_counting (seg7 (seg n)) \<and>
         malloc_ok env \<and> thread_ok env then 0 else - 1)"
  by (auto simp: node_count_def seg7_counting_defs Let_def split: option.splits)

lemma buzzer_on_status:
  "status (snd (process_buzzer_on env n c r)) = 0 \<longleftrightarrow>
     \<not> is_playing (buzzer (buz n)) \<and> initialized (buzzer (buz n)) \<and> malloc_ok env \<and> thread_ok env"
  using music_data_clamped [of "param1 c"]
  by (auto simp: process_buzzer_on_def Let_def split_beta node_play_status ok_response_def
      error_response_def is_music_playing_def)

lemma set_brightness_status:
  assumes "led_is_initialized (leds n)"
  shows "status (snd (process_set_brightness n c r)) = 0 \<longleftrightarrow> 1 \<le> param1 c \<and> param1 c \<le> 3"
proof (cases "1 \<le> param1 c \<and> param1 c \<le> 3")
  case True
  then consider "param1 c = 1" | "param1 c = 2" | "param1 c = 3" using int_cases_le3 by blast
  then show ?thesis using assms by cases (simp_all add: handler_defs lib_defs led_consts)
qed (auto simp: handler_defs led_consts)

lemma process_command_accepted:
  assumes "led_is_initialized (leds n)"
  shows "status (snd (process_command env c n)) = 0 \<longleftrightarrow> accepted env c n"
  using assms
  by (cases "cmd_type c")
    (simp_all add: process_command.simps accepted_def buzzer_on_status set_brightness_status,
      auto simp: process_led_on_def process_led_off_def process_buzzer_off_def process_sensor_on_def
        process_sensor_off_def process_segment_display_def process_segment_stop_def ok_response_def
        error_response_def Let_def split_beta stop_music_def is_music_playing_def
        seg7_stop_counting_def node_count_status)

lemma process_command_refused:
  "buzzer_inv (buz n) \<Longrightarrow> status (snd (process_command env c n)) \<noteq> 0 \<Longrightarrow>
     fst (process_command env c n) = n"
  by (cases "cmd_type c")
    (simp_all add: process_command.simps handler_refused buzzer_on_refused segment_display_refused
      process_sensor_on_def process_sensor_off_def ok_response_def)

lemma device_pass_answers:
  assumes "queue_ok n" "server_running (srv n)"
    and "queue_items (cmds n) (cmd_queue (srv n)) = (p, c) # rest"
  shows "\<exists>n'. device_pass env n = Inr n' \<and>
     queue_items (cmds n') (cmd_queue (srv n')) = rest \<and>
     response (srv n') = snd (process_command env c n)"
proof -
  obtain ps where ps: "queue_addrs (cmd_queue (srv n)) = p # ps" "c = the (cmds n p)"
    "rest = map (\<lambda>p. (p, the (cmds n p))) ps"
    using assms(3) by (auto simp: queue_items_def)
  have inv: "queue_inv (cmds n) (cmd_queue (srv n))" using assms(1) by (simp add: queue_ok_def)
  have live: "cmds n p = Some c" using queue_inv_live [OF inv, of p] ps by auto
  have "p \<notin> set ps" using queue_inv_distinct [OF inv] ps by simp
  then have rest: "rest = map (\<lambda>q. (q, the (((cmds n)(p := None)) q))) ps" using ps by auto
  obtain q where "queue_addrs q = ps"
    "device_command env n =
       (let (n1, r) = process_command env c (upd_srv (\<lambda>s. s\<lparr>cmd_queue := q\<rparr>) n)
        in Inr (check_monitoring env
             ((upd_srv (\<lambda>s. s\<lparr>response := r\<rparr>) n1)\<lparr>cmds := (cmds n)(p := None)\<rparr>)))"
    using device_command_Cons [OF assms(1) ps(1) live] by metis
  with assms(2) rest queue_is_empty_addrs [OF inv] ps(1) show ?thesis
    by (simp add: device_pass_def split_beta Let_def queue_items_def)
qed

section \<open>Properties\<close>

text \<open>A server as \<^verbatim>\<open>server_init\<close> leaves it: devices on its pins, nothing queued.\<close>

definition env_demo :: os_env where
  "env_demo = \<lparr>malloc_ok = True, thread_ok = True, tone_create_ret = 0, pin_level_read = 0\<rparr>"

definition node_demo :: node where
  "node_demo =
     \<lparr>srv = \<lparr>cmd_queue = queue_init \<lparr>commands = [], front = 0, rear = 0, count = 0\<rparr>,
             state_led_on = False, led_brightness = 0, buzzer_playing = False,
             sensor_monitoring = False, segment_counting = False, response = no_response,
             server_running = True, server_socket = 3, client_socket = - 1,
             client_connected = False, web_server_pid = - 1, server_ip = ''10.0.0.7''\<rparr>,
      cmds = Map.empty,
      leds = snd (led_init (Some \<lparr>led_pin = 12\<rparr>) led_load),
      sensor = snd (light_sensor_init (Some \<lparr>sensor_pin = 11\<rparr>) sensor_load),
      seg = \<lparr>seg7 = snd (seg7_init (Some \<lparr>pin_a = 14, pin_b = 15, pin_c = 18, pin_d = 23\<rparr>) seg7_load),
             counters = [], starting = []\<rparr>,
      buz = \<lparr>buzzer = snd (music_init env_demo 21 buzzer_load), players = []\<rparr>,
      last_bright_state = False, g_state_set = True\<rparr>"

lemma node_demo_simps [simp]:
  "led_is_initialized (leds node_demo)" "\<not> led_state (leds node_demo)"
  "sensor_is_initialized (sensor node_demo)" "seg7_is_initialized (seg7 (seg node_demo))"
  "\<not> is_counting (seg7 (seg node_demo))" "counters (seg node_demo) = []" "starting (seg node_demo) = []"
  "initialized (buzzer (buz node_demo))" "\<not> is_playing (buzzer (buz node_demo))"
  "\<not> should_stop (buzzer (buz node_demo))" "players (buz node_demo) = []"
  "\<not> state_led_on (srv node_demo)" "\<not> last_bright_state node_demo" "g_state_set node_demo"
  "\<not> segment_counting (srv node_demo)" "server_running (srv node_demo)"
  "server_ip (srv node_demo) = ''10.0.0.7''" "cmds node_demo = Map.empty" "\<not> sensor_monitoring (srv node_demo)"
  "cmd_queue (srv node_demo) = queue_init \<lparr>commands = [], front = 0, rear = 0, count = 0\<rparr>"
  by (simp_all add: node_demo_def led_init_def led_load_def light_sensor_init_def sensor_load_def
      seg7_init_def seg7_load_def music_init_def buzzer_load_def env_demo_def Let_def)

lemma node_demo_ok [simp]: "libs_ok node_demo" "queue_ok node_demo"
proof -
  have "led_inv (leds node_demo)" by (simp add: node_demo_def led_inv_intros)
  moreover have "led_brightness (srv node_demo) = 0" by (simp add: node_demo_def)
  ultimately show "libs_ok node_demo"
    by (simp add: libs_ok_def buzzer_inv_def live_players_def flag_owned_def)
  show "queue_ok node_demo" by (simp add: queue_ok_def queue_owns_def queue_init_inv)
qed

text \<open>
  C2. A pass of the device thread, with any command in the queue and whatever the operating
  system and the light sensor answer, runs without undefined behaviour. Afterwards the queue
  still owns every allocated command (none is leaked or freed twice), an LED on record as on is
  still lit, one that is lit is on record or a brightness has been set, and the invariants of
  the LED, buzzer and display libraries still hold.
\<close>

theorem device_pass_safe:
  assumes "queue_ok n" "libs_ok n"
  shows "\<exists>n'. device_pass env n = Inr n' \<and> queue_ok n' \<and> libs_ok n'"
  using device_pass_ok [OF assms] by metis

theorem device_pass_safe_witness:
  "\<exists>n'. device_pass env_demo node_demo = Inr n' \<and> queue_ok n' \<and> libs_ok n'"
  using device_pass_safe [of node_demo env_demo] by simp

text \<open>
  C10. Which commands succeed: the LED and sensor commands always, a brightness from 1 to 3, a
  melody when none plays, stopping a melody when one plays, a countdown from 1 to 9 when none is
  on record or running, stopping a countdown when one is on record; melodies and countdowns
  also need an initialised library, memory and a thread. Any other command value is refused.
\<close>

theorem command_succeeds_iff:
  assumes "libs_ok n"
  shows "status (snd (process_command env c n)) = (if accepted env c n then 0 else - 1)"
  using process_command_accepted [of n env c] process_command_status [of env c n] assms
  by (auto simp: libs_ok_def)

theorem command_succeeds_iff_witness:
  "status (snd (process_command env_demo \<lparr>cmd_type = CMD_SET_BRIGHTNESS, param1 = 4, param2 = 0\<rparr> node_demo)) = - 1 \<and>
   status (snd (process_command env_demo \<lparr>cmd_type = CMD_SEGMENT_DISPLAY, param1 = 9, param2 = 0\<rparr> node_demo)) = 0"
  using command_succeeds_iff [of node_demo env_demo] by (simp add: accepted_def env_demo_def)

text \<open>
  C11. A command that is answered with a failure has had no effect at all: not on the devices,
  not on the libraries, not on the server's records.
\<close>

theorem failed_command_changes_nothing:
  assumes "libs_ok n" "status (snd (process_command env c n)) \<noteq> 0"
  shows "fst (process_command env c n) = n"
  using process_command_refused assms by (auto simp: libs_ok_def)

theorem failed_command_changes_nothing_witness:
  "fst (process_command env_demo \<lparr>cmd_type = CMD_BUZZER_OFF, param1 = 0, param2 = 0\<rparr> node_demo) = node_demo"
  by (rule failed_command_changes_nothing)
    (simp_all add: process_command.simps process_buzzer_off_def is_music_playing_def error_response_def)

text \<open>
  C26. The light-sensor automaton switches the LED itself, not only the record. When the
  brightness differs from the one last seen, the new one is remembered; darkness leaves the LED
  lit and on record, and light leaves an LED that was on record dark and off the record, and any
  other LED as it was. When the brightness is the same, nothing changes.
\<close>

theorem sensor_edge_switches_led:
  assumes "libs_ok n" "sensor_is_initialized (sensor n)"
  shows "let n' = handle_sensor_monitoring env n; bright = (pin_level_read env = 0)
     in if bright \<noteq> last_bright_state n
        then last_bright_state n' = bright \<and> state_led_on (srv n') = (\<not> bright) \<and>
          (if \<not> bright then led_lit Cathode_at_pin (leds n')
           else if state_led_on (srv n) then \<not> led_lit Cathode_at_pin (leds n')
           else leds n' = leds n)
        else leds n' = leds n \<and> srv n' = srv n \<and> last_bright_state n' = last_bright_state n"
proof -
  let ?n = "handle_sensor_monitoring env n"
  have "libs_ok ?n" by (rule handle_sensor_monitoring_libs_ok [OF assms(1)])
  then have lit: "led_lit Cathode_at_pin (leds ?n) = led_state (leds ?n)" "state_led_on (srv ?n) \<longrightarrow> led_state (leds ?n)"
    by (simp_all add: libs_ok_def led_inv_lit)
  have "led_is_initialized (leds n)" using assms(1) by (simp add: libs_ok_def)
  with lit is_bright_ready [OF assms(2), of "pin_level_read env"] show ?thesis
    by (auto simp: handle_sensor_monitoring_def Let_def split_beta)
qed

theorem sensor_edge_switches_led_witness:
  "led_lit Cathode_at_pin (leds (handle_sensor_monitoring (env_demo\<lparr>pin_level_read := 1\<rparr>)
     (node_demo\<lparr>last_bright_state := True\<rparr>)))"
proof -
  have "libs_ok (node_demo\<lparr>last_bright_state := True\<rparr>)" using node_demo_ok(1) by (simp add: libs_ok_def)
  from sensor_edge_switches_led [OF this, of "env_demo\<lparr>pin_level_read := 1\<rparr>"] show ?thesis
    by (simp add: Let_def)
qed

text \<open>
  C37. Setting a brightness lights the LED without the server recording that it is on, so light
  falling on the sensor afterwards does not switch it off.
\<close>

theorem brightness_escapes_sensor:
  assumes "libs_ok n" "sensor_is_initialized (sensor n)" "\<not> state_led_on (srv n)" "1 \<le> param1 c" "param1 c \<le> 3"
  shows "let n1 = fst (process_set_brightness n c r)
     in led_is_on (leds n1) \<and> \<not> state_led_on (srv n1) \<and>
        leds (handle_sensor_monitoring (env\<lparr>pin_level_read := 0\<rparr>) n1) = leds n1"
proof -
  have b: "brightness_pwm (param1 c) \<noteq> None" "led_is_initialized (leds n)"
    using assms by (auto simp: brightness_pwm_def led_consts libs_ok_def)
  then have lit: "led_is_on (leds (fst (process_set_brightness n c r)))"
    "\<not> state_led_on (srv (fst (process_set_brightness n c r)))"
    "sensor (fst (process_set_brightness n c r)) = sensor n"
    using assms by (auto simp: process_set_brightness_def led_set_brightness_def led_is_on_def led_consts)
  have "leds (handle_sensor_monitoring (env\<lparr>pin_level_read := 0\<rparr>) m) = leds m"
    if "\<not> state_led_on (srv m)" "sensor_is_initialized (sensor m)" for m
    using that is_bright_ready [of "sensor m" 0]
    by (auto simp: handle_sensor_monitoring_def Let_def split_beta)
  with lit assms(2) show ?thesis by (simp add: Let_def)
qed

theorem brightness_escapes_sensor_witness:
  "led_is_on (leds (handle_sensor_monitoring (env_demo\<lparr>pin_level_read := 0\<rparr>)
     (fst (process_set_brightness node_demo \<lparr>cmd_type = CMD_SET_BRIGHTNESS, param1 = 2, param2 = 0\<rparr> no_response))))"
  using brightness_escapes_sensor [of node_demo "\<lparr>cmd_type = CMD_SET_BRIGHTNESS, param1 = 2, param2 = 0\<rparr>"
      no_response env_demo]
  by (simp add: Let_def)

lemma countdown_starts:
  assumes "status (snd (process_segment_display env n c r)) = 0"
  shows "1 \<le> param1 c" "param1 c \<le> 9" "\<not> is_counting (seg7 (seg n))"
    "fst (process_segment_display env n c r) =
       upd_srv (\<lambda>s. s\<lparr>segment_counting := True\<rparr>) (n\<lparr>seg := (seg n)\<lparr>seg7 := (seg7 (seg n))\<lparr>is_counting := True\<rparr>,
         counters := counters (seg n) @
           [counting_thread_start \<lparr>start_seconds = param1 c, callback = True\<rparr>]\<rparr>\<rparr>)"
proof -
  have c: "\<not> (param1 c < 1 \<or> param1 c > 9)" "\<not> segment_counting (srv n)"
    using assms by (auto simp: process_segment_display_def error_response_def split: if_splits)
  obtain r' s' p where s: "seg7_counting env (param1 c) True (seg7 (seg n)) = (r', s', p)"
    by (metis prod_cases3)
  then have "p \<noteq> None"
    using assms c by (cases p) (auto simp: process_segment_display_def node_count_def
        error_response_def Let_def dest: seg7_counting_refused)
  then obtain p' where "p = Some p'" by blast
  note st = seg7_counting_started [OF s [unfolded this]]
  show "1 \<le> param1 c" "param1 c \<le> 9" "\<not> is_counting (seg7 (seg n))" using c st by simp_all
  show "fst (process_segment_display env n c r) =
       upd_srv (\<lambda>s. s\<lparr>segment_counting := True\<rparr>) (n\<lparr>seg := (seg n)\<lparr>seg7 := (seg7 (seg n))\<lparr>is_counting := True\<rparr>,
         counters := counters (seg n) @
           [counting_thread_start \<lparr>start_seconds = param1 c, callback = True\<rparr>]\<rparr>\<rparr>)"
    using c s st \<open>p = Some p'\<close> by (simp add: process_segment_display_def node_count_def upd_srv_def)
qed

lemma node_play_bell:
  assumes "buzzer_inv (buz n)"
  shows "if initialized (buzzer (buz n)) \<and> \<not> is_playing (buzzer (buz n)) \<and> malloc_ok env \<and> thread_ok env
     then is_playing (buzzer (buz (snd (node_play env MUSIC_SCHOOL_BELL n)))) \<and>
       players (buz (snd (node_play env MUSIC_SCHOOL_BELL n))) = players (buz n) @
         [music_thread_start \<lparr>m_notes = school_bell, m_length = school_bell_length, m_tempo = 280\<rparr>]
     else buz (snd (node_play env MUSIC_SCHOOL_BELL n)) = buz n"
proof (cases "initialized (buzzer (buz n)) \<and> \<not> is_playing (buzzer (buz n)) \<and> malloc_ok env \<and> thread_ok env")
  case True
  then show ?thesis by (simp add: node_play_def play_music_async_def music_data_def music_consts Let_def)
next
  case False
  then have "fst (node_play env MUSIC_SCHOOL_BELL n) \<noteq> 0" by (auto simp: node_play_status)
  from node_play_refused [OF this assms] False show ?thesis by simp
qed

text \<open>
  C14. The end of a countdown: the thread that a successful countdown command has started, if
  nothing stops it, counts to zero, clears the library's flag and calls the callback, which
  clears the server's record. The callback starts exactly one player, with the school-bell
  melody, if at that moment the buzzer is initialised, no melody plays, and memory and a thread
  can be had; otherwise it leaves the buzzer as it was, and the bell stays silent.
\<close>

theorem countdown_rings_bell:
  assumes "status (snd (process_segment_display env n c r)) = 0" "g_state_set n" "buzzer_inv (buz n)"
  shows "let n1 = fst (process_segment_display env n c r)
     in \<exists>k s. count_steps True k (thread_pc (last (counters (seg n1))), seg7 (seg n1)) = (Notify, s) \<and>
        (let n2 = countdown_complete_callback env' (n1\<lparr>seg := (seg n1)\<lparr>seg7 := s\<rparr>\<rparr>)
         in \<not> segment_counting (srv n2) \<and> \<not> is_counting (seg7 (seg n2)) \<and>
            (if initialized (buzzer (buz n)) \<and> \<not> is_playing (buzzer (buz n)) \<and> malloc_ok env' \<and> thread_ok env'
             then is_playing (buzzer (buz n2)) \<and> players (buz n2) = players (buz n) @
               [music_thread_start \<lparr>m_notes = school_bell, m_length = school_bell_length, m_tempo = 280\<rparr>]
             else buz n2 = buz n))"
proof -
  note st = countdown_starts [OF assms(1)]
  define n1 where "n1 = fst (process_segment_display env n c r)"
  have n1: "buz n1 = buz n" "g_state_set n1" "seg7 (seg n1) = (seg7 (seg n))\<lparr>is_counting := True\<rparr>"
    "thread_pc (last (counters (seg n1))) = Check (int (nat (param1 c)))"
    using assms(2) st(1) by (simp_all add: n1_def st(4) counting_thread_start_def count_head_def)
  obtain k s where
    ks: "count_steps True k (Check (int (nat (param1 c))), seg7 (seg n1)) = (Notify, s)" "\<not> is_counting s"
    using count_alone [of "nat (param1 c)" "seg7 (seg n1)" True] st(2) n1(3) by fastforce
  define m where "m = upd_srv (\<lambda>s. s\<lparr>segment_counting := False\<rparr>) (n1\<lparr>seg := (seg n1)\<lparr>seg7 := s\<rparr>\<rparr>)"
  have m: "buz m = buz n" "\<not> segment_counting (srv m)" "seg7 (seg m) = s" using n1(1) by (simp_all add: m_def)
  have call: "countdown_complete_callback env' (n1\<lparr>seg := (seg n1)\<lparr>seg7 := s\<rparr>\<rparr>) =
      snd (node_play env' MUSIC_SCHOOL_BELL m)"
    using n1(2) by (simp add: countdown_complete_callback_def m_def)
  have bell: "if initialized (buzzer (buz n)) \<and> \<not> is_playing (buzzer (buz n)) \<and> malloc_ok env' \<and> thread_ok env'
    then is_playing (buzzer (buz (snd (node_play env' MUSIC_SCHOOL_BELL m)))) \<and>
      players (buz (snd (node_play env' MUSIC_SCHOOL_BELL m))) = players (buz n) @
        [music_thread_start \<lparr>m_notes = school_bell, m_length = school_bell_length, m_tempo = 280\<rparr>]
    else buz (snd (node_play env' MUSIC_SCHOOL_BELL m)) = buz n"
    using node_play_bell [of m env'] assms(3) m(1) by simp
  show ?thesis
    unfolding n1_def [symmetric] Let_def
    by (rule exI [of _ k], rule exI [of _ s]) (unfold call n1(4), use ks m bell in simp)
qed

theorem countdown_rings_bell_witness:
  "\<exists>k s. count_steps True k
       (Check 5, seg7 (seg (fst (process_segment_display env_demo node_demo
          \<lparr>cmd_type = CMD_SEGMENT_DISPLAY, param1 = 5, param2 = 0\<rparr> no_response)))) = (Notify, s)"
proof -
  have "buzzer_inv (buz node_demo)" using node_demo_ok(1) by (simp add: libs_ok_def)
  then show ?thesis
    using countdown_rings_bell [of env_demo node_demo "\<lparr>cmd_type = CMD_SEGMENT_DISPLAY, param1 = 5, param2 = 0\<rparr>"
        no_response env_demo]
    by (auto simp: process_segment_display_def env_demo_def node_count_def seg7_counting_defs
        ok_response_def counting_thread_start_def count_head_def Let_def)
qed

end
