(* ===== verification/Activity.thy ===== *)
theory Activity
  imports Device_Control
begin

text \<open>
  What the other threads of the server do while one of its threads waits: passes of the device
  thread, steps of the counting and playing threads of the libraries, the countdown callback,
  and the signal that stops the server. A list of activities is an interleaving of them.
\<close>

section \<open>Activities\<close>

text \<open>A step of counting thread \<open>j\<close> and of playing thread \<open>j\<close>, put back into the node.\<close>

definition count_tick :: "nat \<Rightarrow> counting_pc \<Rightarrow> seg7_lib \<Rightarrow> node \<Rightarrow> node" where
  "count_tick j pc s n =
     n\<lparr>seg := (seg n)\<lparr>seg7 := s, counters := (counters (seg n))[j := (counters (seg n) ! j)\<lparr>thread_pc := pc\<rparr>]\<rparr>\<rparr>"

definition music_tick :: "nat \<Rightarrow> music_pc \<Rightarrow> buzzer_lib \<Rightarrow> node \<Rightarrow> node" where
  "music_tick j pc b n =
     n\<lparr>buz := (buz n)\<lparr>buzzer := b, players := (players (buz n))[j := (players (buz n) ! j)\<lparr>m_pc := pc\<rparr>]\<rparr>\<rparr>"

text \<open>
  The step of a counting thread that calls the callback runs
  \<^verbatim>\<open>countdown_complete_callback\<close>. An activity of a thread that does not exist is none.
\<close>

definition counter_runs :: "nat \<Rightarrow> os_env \<Rightarrow> node \<Rightarrow> node" where
  "counter_runs j env n =
     (if j < length (counters (seg n)) then
        let t = counters (seg n) ! j
        in if thread_pc t = Notify
           then countdown_complete_callback env (count_tick j Ended (seg7 (seg n)) n)
           else let (pc, s) = count_step (thread_callback t) (thread_pc t) (seg7 (seg n))
                in count_tick j pc s n
      else n)"

definition player_runs :: "nat \<Rightarrow> node \<Rightarrow> node checked" where
  "player_runs j n =
     (if j < length (players (buz n)) then
        let t = players (buz n) ! j
        in checked_bind (music_step (m_data t) (m_pc t) (buzzer (buz n))) (\<lambda>(pc, b).
             Inr (music_tick j pc b n))
      else Inr n)"

datatype activity =
    Device_works os_env
  | Counter_runs nat os_env
  | Player_runs nat
  | Stop_signal

fun act :: "activity \<Rightarrow> node \<Rightarrow> node checked" where
  "act (Device_works env) n = device_pass env n"
| "act (Counter_runs j env) n = Inr (counter_runs j env n)"
| "act (Player_runs j) n = player_runs j n"
| "act Stop_signal n = Inr (upd_srv (\<lambda>s. s\<lparr>server_running := False\<rparr>) n)"

fun activities :: "activity list \<Rightarrow> node \<Rightarrow> node checked" where
  "activities [] n = Inr n"
| "activities (a # as) n = checked_bind (act a n) (activities as)"

section \<open>Activities keep the server sound\<close>

definition sound :: "node \<Rightarrow> bool" where
  "sound n \<longleftrightarrow> queue_ok n \<and> libs_ok n"

text \<open>What no activity touches.\<close>

definition same_net :: "node \<Rightarrow> node \<Rightarrow> bool" where
  "same_net n n' \<longleftrightarrow>
     server_socket (srv n') = server_socket (srv n) \<and> server_ip (srv n') = server_ip (srv n) \<and>
     web_server_pid (srv n') = web_server_pid (srv n) \<and>
     client_socket (srv n') = client_socket (srv n) \<and> client_connected (srv n') = client_connected (srv n)"

lemma same_net_refl [simp]: "same_net n n"
  by (simp add: same_net_def)

lemma same_net_trans: "same_net n n' \<Longrightarrow> same_net n' n'' \<Longrightarrow> same_net n n''"
  by (simp add: same_net_def)

lemma same_net_upd [simp]:
  "same_net n (upd_srv (\<lambda>s. s\<lparr>cmd_queue := q\<rparr>) n)" "same_net n (n\<lparr>cmds := h\<rparr>)"
  "same_net n (upd_srv (\<lambda>s. s\<lparr>response := r\<rparr>) n)" "same_net n (upd_srv (\<lambda>s. s\<lparr>server_running := b\<rparr>) n)"
  by (simp_all add: same_net_def)

lemma same_net_process [simp]: "same_net n (fst (process_command env c n))"
  by (cases "cmd_type c") (simp_all add: same_net_def handler_defs Let_def split_beta)

lemma same_net_monitoring [simp]: "same_net n (check_monitoring env n)"
  by (simp add: same_net_def check_monitoring_def handle_sensor_monitoring_def Let_def split_beta)

lemma same_net_answer:
  "same_net n (check_monitoring env ((upd_srv (\<lambda>s. s\<lparr>response := r\<rparr>)
     (fst (process_command env c (upd_srv (\<lambda>s. s\<lparr>cmd_queue := q\<rparr>) n))))\<lparr>cmds := h\<rparr>))"
  by (intro same_net_trans [OF _ same_net_monitoring] same_net_trans [OF _ same_net_upd(2)]
      same_net_trans [OF _ same_net_upd(3)] same_net_trans [OF _ same_net_process] same_net_upd(1))

lemma same_net_device_pass:
  assumes "queue_ok n" "device_pass env n = Inr n'"
  shows "same_net n n'"
proof (cases "server_running (srv n) \<and> \<not> queue_is_empty (cmd_queue (srv n))")
  case True
  have inv: "queue_inv (cmds n) (cmd_queue (srv n))" using assms(1) by (simp add: queue_ok_def)
  obtain p ps where ps: "queue_addrs (cmd_queue (srv n)) = p # ps"
    using True queue_is_empty_addrs [OF inv] by (cases "queue_addrs (cmd_queue (srv n))") auto
  obtain c where c: "cmds n p = Some c" using queue_inv_live [OF inv, of p] ps by auto
  obtain q where "device_command env n =
       (let (n1, r) = process_command env c (upd_srv (\<lambda>s. s\<lparr>cmd_queue := q\<rparr>) n)
        in Inr (check_monitoring env
             ((upd_srv (\<lambda>s. s\<lparr>response := r\<rparr>) n1)\<lparr>cmds := (cmds n)(p := None)\<rparr>)))"
    using device_command_Cons [OF assms(1) ps c] by metis
  with True assms(2) show ?thesis by (auto simp: device_pass_def split_beta Let_def same_net_answer)
next
  case False
  with assms(2) show ?thesis by (auto simp: device_pass_def split: if_splits)
qed

lemma tick_frame [simp]:
  "cmds (count_tick j pc s n) = cmds n" "srv (count_tick j pc s n) = srv n"
  "cmds (music_tick j pc' b n) = cmds n" "srv (music_tick j pc' b n) = srv n"
  "cmds (countdown_complete_callback env n) = cmds n"
  "cmd_queue (srv (countdown_complete_callback env n)) = cmd_queue (srv n)"
  "response (srv (countdown_complete_callback env n)) = response (srv n)"
  "server_running (srv (countdown_complete_callback env n)) = server_running (srv n)"
  by (simp_all add: count_tick_def music_tick_def countdown_complete_callback_def)

lemma count_tick_libs:
  assumes "j < length (counters (seg n))" "libs_ok n"
    "count_step (thread_callback (counters (seg n) ! j)) (thread_pc (counters (seg n) ! j)) (seg7 (seg n)) = (pc, s)"
  shows "libs_ok (count_tick j pc s n)"
  using assms seg7_step_flag_owned [OF seg7_step.do_tick [OF assms(1,3)]]
  by (simp add: libs_ok_def count_tick_def)

lemma music_tick_libs:
  assumes "j < length (players (buz n))" "libs_ok n"
    "music_step (m_data (players (buz n) ! j)) (m_pc (players (buz n) ! j)) (buzzer (buz n)) = Inr (pc, b)"
  shows "libs_ok (music_tick j pc b n)"
  using assms buzzer_step_inv [OF buzzer_step.do_music_tick [OF assms(1,3)]]
  by (simp add: libs_ok_def music_tick_def)

lemma counter_runs_libs:
  assumes "libs_ok n"
  shows "libs_ok (counter_runs j env n)"
proof (cases "j < length (counters (seg n)) \<and> thread_pc (counters (seg n) ! j) = Notify")
  case True
  with count_tick_libs [of j n Ended "seg7 (seg n)"] assms show ?thesis
    by (simp add: counter_runs_def countdown_callback_libs_ok)
next
  case False
  with count_tick_libs [of j n] assms show ?thesis
    by (auto simp: counter_runs_def Let_def split: prod.splits)
qed

lemma counter_runs_frame [simp]:
  "cmds (counter_runs j env n) = cmds n" "cmd_queue (srv (counter_runs j env n)) = cmd_queue (srv n)"
  "response (srv (counter_runs j env n)) = response (srv n)"
  "server_running (srv (counter_runs j env n)) = server_running (srv n)"
  "same_net n (counter_runs j env n)"
  by (simp_all add: counter_runs_def same_net_def countdown_complete_callback_def Let_def split_beta)

lemma player_runs_ok:
  assumes "libs_ok n"
  obtains n' where "player_runs j n = Inr n'" "libs_ok n'" "cmds n' = cmds n" "srv n' = srv n"
proof (cases "j < length (players (buz n))")
  case True
  let ?t = "players (buz n) ! j"
  have "data_ok (m_data ?t)" "pc_ok (m_data ?t) (m_pc ?t)"
    using assms True by (auto simp: libs_ok_def buzzer_inv_def)
  then obtain pc b where "music_step (m_data ?t) (m_pc ?t) (buzzer (buz n)) = Inr (pc, b)"
    using music_step_ok by blast
  with True assms music_tick_libs [OF True assms this] that [of "music_tick j pc b n"] show thesis
    by (simp add: player_runs_def)
qed (use assms that in \<open>simp add: player_runs_def\<close>)

lemma act_sound:
  assumes "sound n"
  obtains n' where "act a n = Inr n'" "sound n'" "same_net n n'"
proof (cases a)
  case (Device_works env)
  obtain n' where "device_pass env n = Inr n'" "queue_ok n'" "libs_ok n'"
    using device_pass_ok assms unfolding sound_def by metis
  with Device_works assms same_net_device_pass [of n env n'] that show thesis by (simp add: sound_def)
next
  case (Counter_runs j env)
  with assms counter_runs_libs that show thesis by (simp add: sound_def queue_ok_def)
next
  case (Player_runs j)
  obtain n' where "player_runs j n = Inr n'" "libs_ok n'" "cmds n' = cmds n" "srv n' = srv n"
    using player_runs_ok assms unfolding sound_def by metis
  with Player_runs assms that show thesis by (simp add: sound_def queue_ok_def same_net_def)
next
  case Stop_signal
  with assms that show thesis by (simp add: sound_def queue_ok_def libs_ok_def)
qed

lemma activities_sound:
  assumes "sound n"
  shows "\<exists>n'. activities as n = Inr n' \<and> sound n' \<and> same_net n n'"
  using assms
proof (induction as arbitrary: n)
  case (Cons a as)
  obtain n1 where n1: "act a n = Inr n1" "sound n1" "same_net n n1" using act_sound [OF Cons.prems] .
  from Cons.IH [OF n1(2)] n1 show ?case by (auto intro: same_net_trans)
qed simp

text \<open>With nothing queued nobody publishes a response, and nothing gets queued.\<close>

lemma act_idle:
  assumes "sound n" "queue_addrs (cmd_queue (srv n)) = []" "act a n = Inr n'"
  shows "queue_addrs (cmd_queue (srv n')) = []" "response (srv n') = response (srv n)"
proof -
  have "queue_is_empty (cmd_queue (srv n))"
    using assms(1,2) queue_is_empty_addrs by (auto simp: sound_def queue_ok_def)
  moreover have "srv m = srv n" if "player_runs j n = Inr m" for j m
    using player_runs_ok [of n j] assms(1) that unfolding sound_def by (metis Inr_inject)
  ultimately have "cmd_queue (srv n') = cmd_queue (srv n) \<and> response (srv n') = response (srv n)"
    using assms(3) by (cases a) (auto simp: device_pass_def split: if_splits)
  with assms(2) show "queue_addrs (cmd_queue (srv n')) = []" "response (srv n') = response (srv n)" by simp_all
qed

lemma activities_idle:
  assumes "sound n" "queue_addrs (cmd_queue (srv n)) = []" "activities as n = Inr n'"
  shows "queue_addrs (cmd_queue (srv n')) = [] \<and> response (srv n') = response (srv n)"
  using assms
proof (induction as arbitrary: n)
  case (Cons a as)
  obtain n1 where n1: "act a n = Inr n1" "sound n1" using act_sound [OF Cons.prems(1)] by metis
  with Cons.prems have "activities as n1 = Inr n'" by simp
  from Cons.IH [OF n1(2) _ this] act_idle [OF Cons.prems(1,2) n1(1)] show ?case by simp
qed simp

end
