(* ===== verification/Communication.thy ===== *)
theory Communication
  imports Activity
begin

text \<open>
  The communication thread, \<^verbatim>\<open>server_src/communication.c\<close>: the menu and the welcome text,
  the command parser, the answer's text, and the thread's loop. What \<^verbatim>\<open>recv\<close> returns is a
  list of results consumed from the front; when it is used up the peer has closed. Texts sent
  are collected in order. What the other threads do while this one reads or waits is an argument
  of each turn, which the properties take to be any list of activities.
\<close>

section \<open>Texts\<close>

definition menu :: string where
  "menu =
     NL @ ''[ Device Control Menu ]'' @ NL @
     ''1. LED ON'' @ NL @
     ''2. LED OFF'' @ NL @
     ''3. Set Brightness'' @ NL @
     ''4. BUZZER ON (play melody)'' @ NL @
     ''5. BUZZER OFF (stop)'' @ NL @
     ''6. SENSOR ON ('' @ utf8 [234, 176, 144, 236, 139, 156] @ '' '' @
       utf8 [236, 139, 156, 236, 158, 145] @ '')'' @ NL @
     ''7. SENSOR OFF ('' @ utf8 [234, 176, 144, 236, 139, 156] @ '' '' @
       utf8 [236, 162, 133, 235, 163, 140] @ '')'' @ NL @
     ''8. SEGMENT DISPLAY ('' @ utf8 [236, 136, 171, 236, 158, 144] @ '' '' @
       utf8 [237, 145, 156, 236, 139, 156] @ '' '' @ utf8 [237, 155, 132] @ '' '' @
       utf8 [236, 185, 180, 236, 154, 180, 237, 138, 184, 235, 139, 164, 236, 154, 180] @ '')'' @ NL @
     ''9. SEGMENT STOP ('' @
       utf8 [236, 185, 180, 236, 154, 180, 237, 138, 184, 235, 139, 164, 236, 154, 180] @ '' '' @
       utf8 [236, 164, 145, 235, 139, 168] @ '')'' @ NL @
     ''0. Exit'' @ NL @
     ''Select: ''"

definition WEB_SERVER_PORT :: c_int where
  "WEB_SERVER_PORT = 8000"

definition camera_url :: "string \<Rightarrow> string" where
  "camera_url ip = snprintf_trunc 128 (''http://'' @ ip @ '':'' @ fmt_d WEB_SERVER_PORT)"

text \<open>\<^verbatim>\<open>%-48s\<close>: padded with blanks on the right to at least 48 characters.\<close>

definition pad_right :: "nat \<Rightarrow> string \<Rightarrow> string" where
  "pad_right k s = s @ replicate (k - length s) CHR '' ''"

definition box_rule :: "nat \<Rightarrow> nat \<Rightarrow> string" where
  "box_rule l r =
     utf8 [226, 149, l] @ concat (replicate 56 (utf8 [226, 149, 144])) @ utf8 [226, 149, r] @ NL"

definition box_row :: "string \<Rightarrow> string" where
  "box_row s = utf8 [226, 149, 145] @ s @ utf8 [226, 149, 145] @ NL"

definition welcome_msg :: "string \<Rightarrow> string" where
  "welcome_msg url = snprintf_trunc 2048 (
     NL @
     box_rule 148 151 @
     box_row (replicate 56 CHR '' '') @
     box_row (''     Connected to IoT Device Control Server            '') @
     box_row (replicate 56 CHR '' '') @
     box_rule 160 163 @
     box_row (replicate 56 CHR '' '') @
     box_row (''  '' @ utf8 [240, 159, 147, 186] @ '' Camera Monitor:                                   '') @
     box_row (''     '' @ pad_right 48 url @ '' '') @
     box_row (replicate 56 CHR '' '') @
     box_rule 154 157 @
     NL)"

section \<open>Parsing and answering\<close>

definition parse_command :: "(int \<Rightarrow> c_int) \<Rightarrow> string \<Rightarrow> Command option" where
  "parse_command conv buffer =
     (case sscanf_ddd conv buffer of
        [] \<Rightarrow> None
      | type # ps \<Rightarrow>
          Some \<lparr>cmd_type = CommandType_of_int type,
                param1 = (case ps of [] \<Rightarrow> 0 | a # _ \<Rightarrow> a),
                param2 = (case ps of _ # b # _ \<Rightarrow> b | _ \<Rightarrow> 0)\<rparr>)"

definition response_text :: "CommandResponse \<Rightarrow> string" where
  "response_text r =
     (if status r = 0 then snprintf_trunc 512 (''[SUCCESS] '' @ message r @ NL)
      else snprintf_trunc 512 (''[ERROR] '' @ message r @ NL))"

text \<open>\<^verbatim>\<open>send_response\<close>: the text and, from what \<^verbatim>\<open>send\<close> returned, the result.\<close>

definition send_response :: "c_int \<Rightarrow> CommandResponse \<Rightarrow> bool \<times> string" where
  "send_response sent r = (sent > 0, response_text r)"

section \<open>Reading a request\<close>

datatype recv_result =
    Received string  \<comment> \<open>at least one byte\<close>
  | Disconnected     \<comment> \<open>returned 0\<close>
  | RecvFailed       \<comment> \<open>returned -1\<close>

definition next_recv :: "recv_result list \<Rightarrow> recv_result \<times> recv_result list" where
  "next_recv rs = (case rs of [] \<Rightarrow> (Disconnected, []) | r # rs' \<Rightarrow> (r, rs'))"

text \<open>The buffer after the newline and the carriage return are cut off.\<close>

definition strip_line :: "string \<Rightarrow> string" where
  "strip_line bytes = cut_at CHR 0x0D (cut_at CHR 0x0A (cstr bytes))"

definition prompt_for :: "Command \<Rightarrow> string option" where
  "prompt_for cmd =
     (if cmd_type cmd = CMD_SET_BRIGHTNESS then
        (if param1 cmd = 0 then Some ''Enter brightness level (1-3): '' else None)
      else if cmd_type cmd = CMD_BUZZER_ON then
        (if param1 cmd = 0
         then Some ''Enter music number (1:School Bell, 2:Twinkle Star, 3:Happy Birthday, 4:Butterfly): ''
         else None)
      else if cmd_type cmd = CMD_SEGMENT_DISPLAY then
        (if param1 cmd = 0 then Some ''Enter countdown seconds (1-9): '' else None)
      else None)"

text \<open>
  What one turn of the loop reads: the end of the loop, a reason to go on with the next turn,
  or a command to submit; with the texts sent and the input left.
\<close>

datatype request = Quit | Again | Submit Command

definition read_request ::
  "(int \<Rightarrow> c_int) \<Rightarrow> recv_result list \<Rightarrow> request \<times> string list \<times> recv_result list" where
  "read_request conv rs =
     (case next_recv rs of
        (Received bytes, rs1) \<Rightarrow>
          (case parse_command conv (strip_line bytes) of
             None \<Rightarrow> (Again, [menu, ''[ERROR] Invalid command format'' @ NL], rs1)
           | Some cmd \<Rightarrow>
               if cmd_type cmd = CMD_EXIT then (Quit, [menu, ''Disconnecting...'' @ NL], rs1)
               else
                 (case prompt_for cmd of
                    None \<Rightarrow> (Submit cmd, [menu], rs1)
                  | Some prompt \<Rightarrow>
                      (case next_recv rs1 of
                         (Received bytes2, rs2) \<Rightarrow>
                           (Submit (cmd\<lparr>param1 := atoi conv (cstr bytes2)\<rparr>), [menu, prompt], rs2)
                       | (_, rs2) \<Rightarrow> (Quit, [menu, prompt], rs2))))
      | (_, rs1) \<Rightarrow> (Quit, [menu], rs1))"

section \<open>The loop\<close>

text \<open>
  What the system answers during one turn: what the other threads do while the request is read
  and while the thread waits for the answer, the pointer \<^verbatim>\<open>malloc\<close> returns given what is
  allocated, whether \<^verbatim>\<open>pthread_cond_timedwait\<close> returned 0, and what \<^verbatim>\<open>send\<close> returned for the
  response. Being woken and being served are independent: a wait can time out before, during or
  after the work of the device thread, or end without a signal.
\<close>

record 'w turn_env =
  before :: 'w
  alloc :: "cmd_heap \<Rightarrow> addr option"
  during :: 'w
  woken :: bool
  sent_ret :: c_int

text \<open>
  One turn: whether the loop goes on, the texts sent, the input left, the state. \<open>work\<close> says
  what a piece of work of the other threads does to the server.
\<close>

definition comm_turn ::
  "(int \<Rightarrow> c_int) \<Rightarrow> ('w \<Rightarrow> node \<Rightarrow> node checked) \<Rightarrow> 'w turn_env \<Rightarrow> recv_result list \<Rightarrow> node \<Rightarrow>
     (bool \<times> string list \<times> recv_result list \<times> node) checked" where
  "comm_turn conv work w rs n =
     checked_bind (work (before w) n) (\<lambda>n0.
       case read_request conv rs of
         (Quit, out, rs') \<Rightarrow> Inr (False, out, rs', n0)
       | (Again, out, rs') \<Rightarrow> Inr (True, out, rs', n0)
       | (Submit cmd, out, rs') \<Rightarrow>
           checked_bind (queue_push (alloc w (cmds n0)) cmd (cmds n0) (cmd_queue (srv n0)))
             (\<lambda>(pushed, h, q).
               let n1 = upd_srv (\<lambda>s. s\<lparr>cmd_queue := q\<rparr>) (n0\<lparr>cmds := h\<rparr>)
               in if \<not> pushed then Inr (True, out @ [''[ERROR] Command queue full'' @ NL], rs', n1)
                  else checked_bind (work (during w) n1) (\<lambda>n2.
                    if woken w then
                      let (ok, text) = send_response (sent_ret w) (response (srv n2))
                      in Inr (ok, out @ [text], rs', n2)
                    else Inr (True, out @ [''[ERROR] Command timeout'' @ NL], rs', n2))))"

text \<open>
  The loop, with one \<open>turn_env\<close> per turn; \<open>None\<close> means that they were used up before the
  loop ended.
\<close>

fun comm_loop ::
  "(int \<Rightarrow> c_int) \<Rightarrow> ('w \<Rightarrow> node \<Rightarrow> node checked) \<Rightarrow> 'w turn_env list \<Rightarrow> recv_result list \<Rightarrow> node \<Rightarrow>
     (string list \<times> node) checked option" where
  "comm_loop conv work ws rs n =
     (if \<not> server_running (srv n) then Some (Inr ([], n))
      else case ws of
        [] \<Rightarrow> None
      | w # ws' \<Rightarrow>
          (case comm_turn conv work w rs n of
             Inl e \<Rightarrow> Some (Inl e)
           | Inr (go_on, out, rs', n') \<Rightarrow>
               if \<not> go_on then Some (Inr (out, n'))
               else map_option (\<lambda>res. checked_bind res (\<lambda>(out', n''). Inr (out @ out', n'')))
                      (comm_loop conv work ws' rs' n')))"

declare comm_loop.simps [simp del]

text \<open>The end of the thread: the connection is marked closed.\<close>

definition comm_close :: "node \<Rightarrow> node" where
  "comm_close n = upd_srv (\<lambda>s. s\<lparr>client_connected := False, client_socket := - 1\<rparr>) n"

definition communication_thread ::
  "(int \<Rightarrow> c_int) \<Rightarrow> ('w \<Rightarrow> node \<Rightarrow> node checked) \<Rightarrow> 'w turn_env list \<Rightarrow> recv_result list \<Rightarrow> node \<Rightarrow>
     (string list \<times> node) checked option" where
  "communication_thread conv work ws rs n =
     map_option (\<lambda>res. checked_bind res (\<lambda>(out, n').
         Inr (welcome_msg (camera_url (server_ip (srv n))) # out, comm_close n')))
       (comm_loop conv work ws rs n)"

section \<open>Requests\<close>

lemma next_recv_shorter: "next_recv rs = (Received bytes, rs') \<Longrightarrow> length rs = Suc (length rs')"
  by (cases rs) (auto simp: next_recv_def)

text \<open>A turn that goes on has consumed input.\<close>

lemma read_request_shorter:
  assumes "read_request conv rs = (req, out, rs')" "req \<noteq> Quit"
  shows "length rs' < length rs"
  using assms
  by (auto simp: read_request_def split: prod.splits recv_result.splits option.splits if_splits
      dest!: next_recv_shorter)

lemma parse_command_in_int:
  assumes "\<And>v. in_int (conv v)" "parse_command conv s = Some c"
  shows "in_int (param1 c)"
proof -
  have "in_int v" if "v \<in> set (sscanf_ddd conv s)" for v
    using that scan_ds_in_int [of conv v 3 s] assms(1) by (auto simp: sscanf_ddd_def)
  moreover have "in_int 0" by (simp add: int_range_defs)
  ultimately show ?thesis
    using assms(2) by (auto simp: parse_command_def split: list.splits)
qed

lemma read_request_in_int:
  assumes "\<And>v. in_int (conv v)" "read_request conv rs = (Submit c, out, rs')"
  shows "in_int (param1 c)"
  using assms parse_command_in_int [of conv, OF assms(1)] atoi_in_int [of conv, OF assms(1)]
  by (auto simp: read_request_def split: prod.splits recv_result.splits option.splits if_splits)

section \<open>What the thread relies on\<close>

text \<open>A server with nothing queued, and so nothing allocated.\<close>

definition idle :: "node \<Rightarrow> bool" where
  "idle n \<longleftrightarrow> queue_ok n \<and> libs_ok n \<and> queue_addrs (cmd_queue (srv n)) = []"

lemma idle_sound: "idle n \<Longrightarrow> sound n"
  by (simp add: idle_def sound_def)

lemma idle_empty: "idle n \<Longrightarrow> cmds n = Map.empty"
  by (auto simp: idle_def queue_ok_def queue_owns_def)

text \<open>\<^verbatim>\<open>malloc\<close> never returns what is allocated.\<close>

definition fresh_alloc :: "'w turn_env \<Rightarrow> bool" where
  "fresh_alloc w \<longleftrightarrow> (\<forall>h p. alloc w h = Some p \<longrightarrow> h p = None)"

text \<open>The server state after a successful push.\<close>

definition submitted :: "addr \<Rightarrow> Command \<Rightarrow> CommandQueue \<Rightarrow> node \<Rightarrow> node" where
  "submitted p c q n = upd_srv (\<lambda>s. s\<lparr>cmd_queue := q\<rparr>) (n\<lparr>cmds := (cmds n)(p \<mapsto> c)\<rparr>)"

lemma submitted_simps [simp]:
  "cmds (submitted p c q n) = (cmds n)(p \<mapsto> c)" "cmd_queue (srv (submitted p c q n)) = q"
  "server_running (srv (submitted p c q n)) = server_running (srv n)"
  "snd (process_command env d (submitted p c q n)) = snd (process_command env d n)"
  "libs_ok (submitted p c q n) = libs_ok n" "same_net n (submitted p c q n)"
  by (simp_all add: submitted_def same_net_def)

text \<open>A push on a sound server: refused with nothing changed, or queued last.\<close>

lemma sound_push:
  assumes "sound n" "\<forall>p. m = Some p \<longrightarrow> cmds n p = None"
  obtains (refused) "queue_push m c (cmds n) (cmd_queue (srv n)) = Inr (False, cmds n, cmd_queue (srv n))"
    | (queued) p q where "m = Some p"
      "queue_push m c (cmds n) (cmd_queue (srv n)) = Inr (True, (cmds n)(p \<mapsto> c), q)"
      "sound (submitted p c q n)" "queue_addrs q = queue_addrs (cmd_queue (srv n)) @ [p]"
proof -
  have inv: "queue_inv (cmds n) (cmd_queue (srv n))" and own: "queue_owns (cmds n) (cmd_queue (srv n))"
    using assms(1) by (simp_all add: sound_def queue_ok_def)
  show thesis
  proof (cases "length (queue_addrs (cmd_queue (srv n))) = 100 \<or> m = None")
    case True
    then show thesis using refused queue_push_full [OF inv] queue_push_no_memory by metis
  next
    case False
    then obtain p where p: "m = Some p" "p \<notin> dom (cmds n)" using assms(2) by auto
    have "length (queue_addrs (cmd_queue (srv n))) < 100" using False queue_inv_length [OF inv] by simp
    from queue_push_room [OF inv this p(2)] obtain q where
      q: "queue_push (Some p) c (cmds n) (cmd_queue (srv n)) = Inr (True, (cmds n)(p \<mapsto> c), q)"
      "queue_inv ((cmds n)(p \<mapsto> c)) q" "queue_addrs q = queue_addrs (cmd_queue (srv n)) @ [p]" by metis
    moreover have "queue_owns ((cmds n)(p \<mapsto> c)) q"
      using own q(3) by (simp add: queue_owns_def)
    ultimately show thesis
      using queued [of p q] p(1) assms(1) by (simp add: sound_def queue_ok_def)
  qed
qed

lemma idle_push:
  assumes "idle n"
  obtains q where "queue_push (Some p) c (cmds n) (cmd_queue (srv n)) = Inr (True, (cmds n)(p \<mapsto> c), q)"
    "queue_inv ((cmds n)(p \<mapsto> c)) q" "queue_addrs q = [p]" "sound (submitted p c q n)"
proof -
  have n: "cmds n = Map.empty" "queue_addrs (cmd_queue (srv n)) = []"
    using assms idle_empty [OF assms] by (simp_all add: idle_def)
  have inv: "queue_inv (cmds n) (cmd_queue (srv n))" using assms by (simp add: idle_def queue_ok_def)
  have "length (queue_addrs (cmd_queue (srv n))) < 100" "p \<notin> dom (cmds n)" using n by simp_all
  from queue_push_room [OF inv this, of c] obtain q where
    q: "queue_push (Some p) c (cmds n) (cmd_queue (srv n)) = Inr (True, (cmds n)(p \<mapsto> c), q)"
    "queue_inv ((cmds n)(p \<mapsto> c)) q" "queue_addrs q = queue_addrs (cmd_queue (srv n)) @ [p]" .
  have "queue_owns ((cmds n)(p \<mapsto> c)) q" using q(3) n by (simp add: queue_owns_def)
  moreover have "libs_ok n" using assms by (simp add: idle_def)
  ultimately have "sound (submitted p c q n)" using q(2) by (simp add: sound_def queue_ok_def)
  with that q n(2) show thesis by simp
qed

text \<open>
  The contract between the communication thread and the rest of the server: other threads'
  work keeps the server sound and leaves the connection alone, and a piece of work that serves
  takes the oldest command and publishes its answer.
\<close>

locale command_server =
  fixes work :: "'w \<Rightarrow> node \<Rightarrow> node checked"
    and serves :: "'w \<Rightarrow> 'e \<Rightarrow> bool"
    and answer :: "'e \<Rightarrow> Command \<Rightarrow> node \<Rightarrow> CommandResponse"
  assumes keeps: "sound n \<Longrightarrow> \<exists>n'. work w n = Inr n' \<and> sound n' \<and> same_net n n'"
    and answers_last: "sound n \<Longrightarrow> server_running (srv n) \<Longrightarrow> serves w e \<Longrightarrow>
      queue_items (cmds n) (cmd_queue (srv n)) = [(p, c)] \<Longrightarrow>
      \<exists>n'. work w n = Inr n' \<and> idle n' \<and> response (srv n') = answer e c n"
    and answer_queue: "answer e d (submitted p c q n) = answer e d n"
begin

lemma turn_total:
  assumes "sound n" "fresh_alloc w"
  shows "\<exists>go_on out rs' n'. comm_turn conv work w rs n = Inr (go_on, out, rs', n') \<and> sound n' \<and>
     same_net n n' \<and> (go_on \<longrightarrow> length rs' < length rs)"
proof -
  obtain n0 where n0: "work (before w) n = Inr n0" "sound n0" "same_net n n0" using keeps [OF assms(1)] by blast
  obtain req out rs' where r: "read_request conv rs = (req, out, rs')" by (metis prod_cases3)
  note len = read_request_shorter [OF r]
  show ?thesis
  proof (cases req)
    case (Submit c)
    show ?thesis
    proof (rule sound_push [of n0 "alloc w (cmds n0)" c])
      show "\<forall>p. alloc w (cmds n0) = Some p \<longrightarrow> cmds n0 p = None"
        using assms(2) by (simp add: fresh_alloc_def)
    next
      assume "queue_push (alloc w (cmds n0)) c (cmds n0) (cmd_queue (srv n0)) =
          Inr (False, cmds n0, cmd_queue (srv n0))"
      with r Submit n0 len show ?thesis by (auto simp: comm_turn_def upd_srv_def)
    next
      fix p q
      assume q: "queue_push (alloc w (cmds n0)) c (cmds n0) (cmd_queue (srv n0)) = Inr (True, (cmds n0)(p \<mapsto> c), q)"
        "sound (submitted p c q n0)"
      obtain n2 where n2: "work (during w) (submitted p c q n0) = Inr n2" "sound n2"
        "same_net (submitted p c q n0) n2" using keeps [OF q(2)] by blast
      have "same_net n n2"
        by (rule same_net_trans [OF n0(3) same_net_trans [OF submitted_simps(6) n2(3)]])
      moreover have "length rs' < length rs" using len Submit by simp
      ultimately show ?thesis
        using r Submit n0(1) n2(1,2) q(1)
        by (cases "woken w") (auto simp: comm_turn_def submitted_def [symmetric] Let_def split_beta)
    qed (rule n0(2))
  qed (use r n0 len in \<open>auto simp: comm_turn_def\<close>)
qed

lemma loop_total:
  assumes "sound n" "length rs < length ws" "\<forall>w \<in> set ws. fresh_alloc w"
  shows "\<exists>out n'. comm_loop conv work ws rs n = Some (Inr (out, n')) \<and> sound n' \<and> same_net n n'"
  using assms
proof (induction ws arbitrary: rs n)
  case (Cons w ws)
  show ?case
  proof (cases "server_running (srv n)")
    case True
    obtain go_on out rs' n' where
      t: "comm_turn conv work w rs n = Inr (go_on, out, rs', n')" "sound n'" "same_net n n'"
      "go_on \<longrightarrow> length rs' < length rs"
      using turn_total [OF Cons.prems(1), of w conv rs] Cons.prems(3) by auto
    show ?thesis
    proof (cases go_on)
      case True
      with t Cons.prems have "length rs' < length ws" "\<forall>w \<in> set ws. fresh_alloc w" by simp_all
      with Cons.IH [OF t(2)] obtain out' n'' where
        "comm_loop conv work ws rs' n' = Some (Inr (out', n''))" "sound n''" "same_net n' n''" by blast
      with True t \<open>server_running (srv n)\<close> same_net_trans [OF t(3)] show ?thesis
        by (subst comm_loop.simps) simp
    next
      case False
      with t True show ?thesis by (subst comm_loop.simps) simp
    qed
  next
    case False
    with Cons.prems show ?thesis by (subst comm_loop.simps) simp
  qed
qed simp

lemma turn_answered:
  assumes "work (before w) n = Inr n0" "idle n0" "server_running (srv n0)"
    and "read_request conv rs = (Submit c, out, rs')" "alloc w (cmds n0) = Some p"
    and "serves (during w) e" "woken w"
  shows "\<exists>n'. comm_turn conv work w rs n =
      Inr (sent_ret w > 0, out @ [response_text (answer e c n0)], rs', n') \<and> idle n'"
proof -
  obtain q where q: "queue_push (Some p) c (cmds n0) (cmd_queue (srv n0)) = Inr (True, (cmds n0)(p \<mapsto> c), q)"
    "queue_addrs q = [p]" "sound (submitted p c q n0)"
    using idle_push [OF assms(2)] by metis
  have "queue_items (cmds (submitted p c q n0)) (cmd_queue (srv (submitted p c q n0))) = [(p, c)]"
    using q(2) by (simp add: queue_items_def)
  from answers_last [OF q(3) _ assms(6) this] assms(3) obtain n' where
    "work (during w) (submitted p c q n0) = Inr n'" "idle n'" "response (srv n') = answer e c n0"
    by (auto simp: answer_queue)
  with q assms show ?thesis
    by (simp add: comm_turn_def submitted_def [symmetric] send_response_def Let_def)
qed

end

text \<open>Lists of activities are such work; one that begins with a pass of the device thread serves.\<close>

definition serving :: "activity list \<Rightarrow> os_env \<Rightarrow> bool" where
  "serving as env \<longleftrightarrow> (\<exists>bs. as = Device_works env # bs)"

interpretation device_server: command_server activities serving "\<lambda>env c n. snd (process_command env c n)"
proof (unfold_locales, goal_cases)
  case (1 n w)
  then show ?case by (rule activities_sound)
next
  case (2 n w env p c)
  obtain bs where bs: "w = Device_works env # bs" using 2(3) by (auto simp: serving_def)
  have ok: "queue_ok n" using 2(1) by (simp add: sound_def)
  obtain n1 where n1: "device_pass env n = Inr n1" "queue_items (cmds n1) (cmd_queue (srv n1)) = []"
    "response (srv n1) = snd (process_command env c n)"
    using device_pass_answers [OF ok 2(2,4), of env] by blast
  have s1: "sound n1"
    using act_sound [OF 2(1), of "Device_works env"] n1(1) by (metis Inr_inject act.simps(1))
  have empty: "queue_addrs (cmd_queue (srv n1)) = []" using n1(2) by (simp add: queue_items_def)
  obtain n' where n': "activities bs n1 = Inr n'" "sound n'" using activities_sound [OF s1] by blast
  from activities_idle [OF s1 empty n'(1)] n' n1 bs show ?case by (simp add: idle_def sound_def)
next
  case 3
  show ?case by simp
qed

section \<open>Properties\<close>

definition turn_demo :: "activity list turn_env" where
  "turn_demo =
     \<lparr>before = [], alloc = (\<lambda>h. if h 7 = None then Some 7 else None), during = [Device_works env_demo],
      woken = True, sent_ret = 1\<rparr>"

lemma turn_demo_fresh [simp]:
  "fresh_alloc turn_demo" "fresh_alloc (turn_demo\<lparr>woken := b\<rparr>)" "fresh_alloc (turn_demo\<lparr>during := as\<rparr>)"
  by (simp_all add: fresh_alloc_def turn_demo_def)

lemma node_demo_idle [simp]: "idle node_demo"
  by (simp add: idle_def queue_init_inv)

lemma idle_net [simp]:
  "idle (upd_srv (\<lambda>s. s\<lparr>client_connected := b, client_socket := k\<rparr>) n) = idle n"
  "idle (upd_srv (\<lambda>s. s\<lparr>client_socket := k, client_connected := b\<rparr>) n) = idle n"
  "idle (upd_srv (\<lambda>s. s\<lparr>server_running := b\<rparr>) n) = idle n"
  "idle (upd_srv (\<lambda>s. s\<lparr>web_server_pid := k\<rparr>) n) = idle n"
  "idle (n\<lparr>g_state_set := b\<rparr>) = idle n"
  by (simp_all add: idle_def queue_ok_def libs_ok_def)

lemma sound_net [simp]:
  "sound (upd_srv (\<lambda>s. s\<lparr>client_connected := b, client_socket := k\<rparr>) n) = sound n"
  "sound (upd_srv (\<lambda>s. s\<lparr>client_socket := k, client_connected := b\<rparr>) n) = sound n"
  "sound (upd_srv (\<lambda>s. s\<lparr>server_running := b\<rparr>) n) = sound n"
  "sound (upd_srv (\<lambda>s. s\<lparr>web_server_pid := k\<rparr>) n) = sound n"
  "sound (n\<lparr>g_state_set := b\<rparr>) = sound n" "sound (comm_close n) = sound n"
  by (simp_all add: sound_def queue_ok_def libs_ok_def comm_close_def)

lemma communication_thread_total:
  assumes "sound n" "length rs < length ws" "\<forall>w \<in> set ws. fresh_alloc w"
  shows "\<exists>out n'. communication_thread conv activities ws rs n =
       Some (Inr (welcome_msg (camera_url (server_ip (srv n))) # out, comm_close n')) \<and>
     sound n' \<and> same_net n n'"
proof -
  obtain out n' where "comm_loop conv activities ws rs n = Some (Inr (out, n'))" "sound n'" "same_net n n'"
    using device_server.loop_total [OF assms] by blast
  then show ?thesis
    unfolding communication_thread_def by (intro exI [of _ out] exI [of _ n']) (simp add: same_net_def)
qed



text \<open>
  C15. The answer sent for a request is the answer of its own handler: a turn that submits a
  command to a server with nothing queued, gets memory for it and is woken after the device
  thread has made a pass, with whatever the threads did before the submission and do after that
  pass, sends the text of what the command's handler returned.
\<close>

theorem request_gets_its_answer:
  assumes "activities (before w) n = Inr n0" "idle n0" "server_running (srv n0)"
    and "read_request conv rs = (Submit c, out, rs')" "alloc w (cmds n0) = Some p"
    and "during w = Device_works env # as" "woken w"
  shows "\<exists>n'. comm_turn conv activities w rs n =
       Inr (sent_ret w > 0, out @ [response_text (snd (process_command env c n0))], rs', n') \<and> idle n'"
  using device_server.turn_answered [OF assms(1-5) _ assms(7), of env] assms(6)
  by (simp add: serving_def)

lemma parse_demo:
  "parse_command conv (strip_line (''1'' @ NL)) =
     Some \<lparr>cmd_type = CMD_LED_ON, param1 = 0, param2 = 0\<rparr>"
  "parse_command conv (strip_line (''2'' @ NL)) =
     Some \<lparr>cmd_type = CMD_LED_OFF, param1 = 0, param2 = 0\<rparr>"
  by (simp_all add: parse_command_def strip_line_def cstr_def cut_at_def NL_def utf8_def sscanf_ddd_def
      numeral_3_eq_3 scan_d_def split_sign_def isspace_def is_digit_def digits_val_def digit_val_def
      stored_int_def int_range_defs CommandType_of_int_def)

theorem request_gets_its_answer_witness:
  "\<exists>n'. comm_turn id activities turn_demo [Received (''1'' @ NL)] node_demo =
     Inr (True, [menu, response_text \<lparr>status = 0, message = ''LED turned ON'', resp_value = 0\<rparr>], [], n')"
proof -
  let ?c = "\<lparr>cmd_type = CMD_LED_ON, param1 = 0, param2 = 0\<rparr>"
  have "read_request id [Received (''1'' @ NL)] = (Submit ?c, [menu], [])"
    by (simp add: read_request_def next_recv_def parse_demo prompt_for_def del: append.simps)
  moreover have "snd (process_command env_demo ?c node_demo) =
      \<lparr>status = 0, message = ''LED turned ON'', resp_value = 0\<rparr>"
    by (simp add: handler_defs split_beta)
  ultimately show ?thesis
    using request_gets_its_answer [of turn_demo node_demo node_demo id "[Received (''1'' @ NL)]" ?c "[menu]" "[]"
        7 env_demo "[]"]
    by (auto simp: turn_demo_def)
qed

text \<open>
  C16. Whatever bytes a client sends, a command read from them is answered with a message that
  fits \<^verbatim>\<open>message[256]\<close> with its terminating NUL, and the text sent is the whole message
  with its tag: neither the handlers' \<^verbatim>\<open>sprintf\<close> nor the response buffer overflows or cuts.
\<close>

theorem answer_never_truncated:
  assumes "\<forall>v. in_int (conv v)" "read_request conv rs = (Submit c, out, rs')"
  shows "let r = snd (process_command env c n)
     in length (message r) < 256 \<and>
        response_text r = (if status r = 0 then ''[SUCCESS] '' else ''[ERROR] '') @ message r @ NL"
proof -
  have "in_int (param1 c)" using read_request_in_int assms by blast
  from handler_message_fits [OF this, of env n] show ?thesis
    by (simp add: Let_def response_text_def)
qed

theorem answer_never_truncated_witness:
  "response_text (snd (process_command env_demo \<lparr>cmd_type = CMD_LED_ON, param1 = 0, param2 = 0\<rparr> node_demo)) =
     ''[SUCCESS] LED turned ON'' @ NL"
proof -
  let ?c = "\<lparr>cmd_type = CMD_LED_ON, param1 = 0, param2 = 0\<rparr>"
  have "read_request (\<lambda>_. 0) [Received (''1'' @ NL)] = (Submit ?c, [menu], [])"
    by (simp add: read_request_def next_recv_def parse_demo prompt_for_def del: append.simps)
  with answer_never_truncated [of "\<lambda>_. 0" "[Received (''1'' @ NL)]" ?c "[menu]" "[]" env_demo node_demo]
  show ?thesis by (simp add: int_range_defs handler_defs split_beta)
qed

text \<open>
  C38. Answers carry nothing that ties them to their request: if one turn times out because the
  device thread does not run, the next turn of the same client sends it the answer of the
  earlier command for the later one.
\<close>

theorem timeout_shifts_answers:
  assumes "idle n" "server_running (srv n)" "read_request conv rs = (Submit c, out, rs')"
    and "read_request conv rs' = (Submit c', out', rs'')" "alloc w (cmds n) = Some p"
    and "alloc w' [p \<mapsto> c] = Some p'" "p \<noteq> p'" "\<not> woken w" "woken w'"
    and "before w = []" "during w = []" "before w' = []" "during w' = [Device_works env]"
  shows "\<exists>n1 n2. comm_turn conv activities w rs n = Inr (True, out @ [''[ERROR] Command timeout'' @ NL], rs', n1) \<and>
     comm_turn conv activities w' rs' n1 =
       Inr (sent_ret w' > 0, out' @ [response_text (snd (process_command env c n))], rs'', n2)"
proof -
  obtain q where q: "queue_push (Some p) c (cmds n) (cmd_queue (srv n)) = Inr (True, [p \<mapsto> c], q)"
    "queue_inv [p \<mapsto> c] q" "queue_addrs q = [p]" "cmds n = Map.empty"
    using idle_push [OF assms(1), of p c] idle_empty [OF assms(1)] by metis
  let ?n1 = "submitted p c q n"
  have t1: "comm_turn conv activities w rs n = Inr (True, out @ [''[ERROR] Command timeout'' @ NL], rs', ?n1)"
    using q assms by (simp add: comm_turn_def submitted_def Let_def)
  obtain q2 where q2: "queue_push (Some p') c' [p \<mapsto> c] q = Inr (True, [p \<mapsto> c, p' \<mapsto> c'], q2)"
    "queue_inv [p \<mapsto> c, p' \<mapsto> c'] q2" "queue_addrs q2 = [p, p']"
    using queue_push_room [OF q(2), of p' c'] q(3) assms(7) by auto
  let ?m = "submitted p' c' q2 ?n1"
  have m: "cmds ?m = [p \<mapsto> c, p' \<mapsto> c']" "queue_ok ?m" "server_running (srv ?m)"
    using q2 q(4) assms(2) by (auto simp: queue_ok_def queue_owns_def)
  moreover have "queue_items (cmds ?m) (cmd_queue (srv ?m)) = [(p, c), (p', c')]"
    using q2 m(1) assms(7) by (simp add: queue_items_def)
  ultimately obtain n2 where "device_pass env ?m = Inr n2"
    "response (srv n2) = snd (process_command env c n)"
    using device_pass_answers [of ?m p c "[(p', c')]" env] by auto
  then have "comm_turn conv activities w' rs' ?n1 =
       Inr (sent_ret w' > 0, out' @ [response_text (snd (process_command env c n))], rs'', n2)"
    using assms q2 q(4) by (simp add: comm_turn_def submitted_def [of p'] send_response_def Let_def)
  with t1 show ?thesis by blast
qed

theorem timeout_shifts_answers_witness:
  "\<exists>n1 n2. comm_turn id activities (turn_demo\<lparr>woken := False, during := []\<rparr>)
       [Received (''1'' @ NL), Received (''2'' @ NL)] node_demo =
       Inr (True, [menu, ''[ERROR] Command timeout'' @ NL], [Received (''2'' @ NL)], n1) \<and>
     comm_turn id activities (turn_demo\<lparr>alloc := (\<lambda>h. if h 8 = None then Some 8 else None)\<rparr>)
       [Received (''2'' @ NL)] n1 =
       Inr (True, [menu, response_text \<lparr>status = 0, message = ''LED turned ON'', resp_value = 0\<rparr>], [], n2)"
proof -
  let ?c = "\<lparr>cmd_type = CMD_LED_ON, param1 = 0, param2 = 0\<rparr>"
  let ?d = "\<lparr>cmd_type = CMD_LED_OFF, param1 = 0, param2 = 0\<rparr>"
  let ?rs = "[Received (''1'' @ NL), Received (''2'' @ NL)]"
  have "read_request id ?rs = (Submit ?c, [menu], [Received (''2'' @ NL)])"
    "read_request id [Received (''2'' @ NL)] = (Submit ?d, [menu], [])"
    by (simp_all add: read_request_def next_recv_def parse_demo prompt_for_def del: append.simps)
  moreover have "snd (process_command env_demo ?c node_demo) =
      \<lparr>status = 0, message = ''LED turned ON'', resp_value = 0\<rparr>"
    by (simp add: handler_defs split_beta)
  ultimately show ?thesis
    using timeout_shifts_answers [of node_demo id ?rs ?c "[menu]" "[Received (''2'' @ NL)]" ?d "[menu]" "[]"
        "turn_demo\<lparr>woken := False, during := []\<rparr>" 7
        "turn_demo\<lparr>alloc := (\<lambda>h. if h 8 = None then Some 8 else None)\<rparr>" 8 env_demo]
    by (auto simp: turn_demo_def)
qed

end
