(* ===== verification/Client.thy ===== *)
theory Client
  imports Communication
begin

text \<open>
  The client, \<^verbatim>\<open>client_src/client.c\<close> and \<^verbatim>\<open>client_src/main.c\<close>: connecting, sending a
  command, the loop that answers the server's menu and prompts with what the user types, and
  the signal handler. What the socket calls return is an argument. Standard input is the string
  of what the user types until its end, and it is read as the code reads it, with
  \<^verbatim>\<open>scanf("%d")\<close> and, when that fails, \<^verbatim>\<open>getchar\<close> up to a newline. A signal can
  arrive while the client waits for the user, for the server, or in the middle of closing the
  socket. A client that does not return is the value \<open>None\<close>.
\<close>

section \<open>Connecting and sending\<close>

record ClientState =
  socket_fd :: c_int
  connected :: bool
  client_server_ip :: string

text \<open>
  \<^verbatim>\<open>client_disconnect\<close>: the state and the descriptors that \<^verbatim>\<open>close\<close> was called on.
  \<open>hits\<close> is the number of signals that arrive, one inside the other, after the test of
  \<^verbatim>\<open>connected\<close> and before it is cleared: the handler of the first runs all of
  \<^verbatim>\<open>client_disconnect\<close> in that place, with the remaining ones in it.
\<close>

fun client_disconnect :: "nat \<Rightarrow> ClientState \<Rightarrow> ClientState \<times> c_int list" where
  "client_disconnect hits c =
     (if connected c then
        (c\<lparr>connected := False\<rparr>,
         socket_fd c # (case hits of 0 \<Rightarrow> [] | Suc h \<Rightarrow> snd (client_disconnect h c)))
      else (c, []))"

declare client_disconnect.simps [simp del]

text \<open>The handler of SIGINT and SIGTERM.\<close>

definition signal_handler :: "nat \<Rightarrow> ClientState \<Rightarrow> ClientState \<times> c_int list" where
  "signal_handler hits c = client_disconnect hits c"

text \<open>A signal that may arrive at some place, with the number of those that hit its handler.\<close>

definition interrupted :: "nat option \<Rightarrow> ClientState \<Rightarrow> ClientState \<times> c_int list" where
  "interrupted sig c = (case sig of None \<Rightarrow> (c, []) | Some hits \<Rightarrow> signal_handler hits c)"

text \<open>
  What the system answers while the client connects: the descriptor of \<^verbatim>\<open>socket\<close>, the
  results of \<^verbatim>\<open>inet_pton\<close> and \<^verbatim>\<open>connect\<close>, whether a signal arrives while the client
  waits for the welcome text; and how often the last \<^verbatim>\<open>client_disconnect\<close> is hit. A signal
  before the connection is made finds \<^verbatim>\<open>connected\<close> false and has no effect.
\<close>

record connect_env =
  socket_ret :: c_int
  pton_ret :: c_int
  connect_ret :: c_int
  welcome_signal :: "nat option"
  last_hits :: nat

text \<open>
  The result: the status, the state, and the descriptors that \<^verbatim>\<open>close\<close> was called on. The
  text of the first \<^verbatim>\<open>recv\<close> is only printed.
\<close>

definition client_connect ::
  "connect_env \<Rightarrow> string \<Rightarrow> c_int \<times> ClientState \<times> c_int list" where
  "client_connect e ip =
     (let c = \<lparr>socket_fd = socket_ret e, connected = False, client_server_ip = take 63 ip\<rparr>
      in if socket_fd c < 0 then (- 1, c, [])
         else if pton_ret e \<le> 0 then (- 1, c, [socket_fd c])
         else if connect_ret e < 0 then (- 1, c, [socket_fd c])
         else (0, interrupted (welcome_signal e) (c\<lparr>connected := True\<rparr>)))"

definition CLIENT_BUFFER_SIZE :: nat where
  "CLIENT_BUFFER_SIZE = 1024"

definition command_text :: "c_int \<Rightarrow> c_int \<Rightarrow> c_int \<Rightarrow> string" where
  "command_text choice p1 p2 =
     snprintf_trunc CLIENT_BUFFER_SIZE (fmt_d choice @ '' '' @ fmt_d p1 @ '' '' @ fmt_d p2 @ NL)"

text \<open>\<open>sent\<close> is what \<^verbatim>\<open>send\<close> returns, if it is called; the text is what was sent.\<close>

definition client_send_command ::
  "c_int \<Rightarrow> ClientState \<Rightarrow> c_int \<Rightarrow> c_int \<Rightarrow> c_int \<Rightarrow> c_int \<times> string list" where
  "client_send_command sent c choice p1 p2 =
     (if \<not> connected c then (- 1, [])
      else (if sent \<le> 0 then - 1 else 0, [command_text choice p1 p2]))"

section \<open>Reading what the user types\<close>

text \<open>
  \<^verbatim>\<open>while (getchar() != '\n');\<close> At the end of the input \<^verbatim>\<open>getchar\<close> returns EOF, every
  time.
\<close>

partial_function (option) discard_line :: "string \<Rightarrow> string option" where
  "discard_line stdin =
     (if stdin = [] then discard_line stdin
      else if hd stdin = CHR 0x0A then Some (tl stdin)
      else discard_line (tl stdin))"

text \<open>
  \<^verbatim>\<open>scanf\<close> and the branch for its failure: the number, if there is one, and the input left.
  A failed conversion has read the white space, and the line goes with a sign it has read.
\<close>

definition read_number :: "(int \<Rightarrow> c_int) \<Rightarrow> string \<Rightarrow> (c_int option \<times> string) option" where
  "read_number conv stdin =
     (case scan_d conv stdin of
        Some (v, rest) \<Rightarrow> Some (Some v, rest)
      | None \<Rightarrow> map_option (\<lambda>rest. (None, rest)) (discard_line (dropWhile isspace stdin)))"

section \<open>The loop\<close>

text \<open>
  The reaction to a text from the server: whether the loop goes on, what is sent and the input
  left. \<open>c\<close> is the state when the user's number has been read; on a closed socket
  \<^verbatim>\<open>send\<close> sends nothing.
\<close>

definition client_react ::
  "(int \<Rightarrow> c_int) \<Rightarrow> c_int \<Rightarrow> ClientState \<Rightarrow> string \<Rightarrow> string \<Rightarrow> (bool \<times> string list \<times> string) option" where
  "client_react conv sent c buffer stdin =
     (if strstr_found buffer ''Select:'' then
        (case read_number conv stdin of
           None \<Rightarrow> None
         | Some (None, rest) \<Rightarrow> Some (True, [], rest)
         | Some (Some choice, rest) \<Rightarrow>
             if choice = 0 then Some (False, snd (client_send_command sent c choice 0 0), rest)
             else if choice = 3 then Some (True, snd (client_send_command sent c choice 0 0), rest)
             else if choice = 4 then Some (True, snd (client_send_command sent c choice 0 0), rest)
             else if choice = 8 then Some (True, snd (client_send_command sent c choice 0 0), rest)
             else if choice \<ge> 1 \<and> choice \<le> 9 then
               Some (True, snd (client_send_command sent c choice 0 0), rest)
             else Some (True, [], rest))
      else if strstr_found buffer ''Enter'' then
        (case read_number conv stdin of
           None \<Rightarrow> None
         | Some (None, rest) \<Rightarrow> Some (True, [], rest)
         | Some (Some param, rest) \<Rightarrow>
             Some (True, if connected c then [snprintf_trunc CLIENT_BUFFER_SIZE (fmt_d param @ NL)] else [],
                   rest))
      else Some (True, [], stdin))"

text \<open>
  What one pass of the loop finds: \<^verbatim>\<open>select\<close> timed out, a text and perhaps a signal while
  it is dealt with, the server's end of the connection, an error that ends the loop or not, or a
  signal that interrupts \<^verbatim>\<open>select\<close>.
\<close>

datatype client_input =
    Nothing_ready
  | From_server string "nat option"
  | Server_closed
  | Recv_error bool  \<comment> \<open>whether it is EAGAIN or EWOULDBLOCK\<close>
  | Interrupted nat

text \<open>
  One pass: whether the loop goes on, the texts sent, the state, the descriptors closed and the
  input left.
\<close>

fun client_pass ::
  "(int \<Rightarrow> c_int) \<Rightarrow> c_int \<Rightarrow> ClientState \<Rightarrow> client_input \<Rightarrow> string \<Rightarrow>
     (bool \<times> string list \<times> ClientState \<times> c_int list \<times> string) option" where
  "client_pass conv sent c Nothing_ready stdin = Some (True, [], c, [], stdin)"
| "client_pass conv sent c (From_server bytes sig) stdin =
     (let (c', closed) = interrupted sig c
      in map_option (\<lambda>(go_on, out, rest). (go_on, out, c', closed, rest))
           (client_react conv sent c' (cstr bytes) stdin))"
| "client_pass conv sent c Server_closed stdin = Some (False, [], c, [], stdin)"
| "client_pass conv sent c (Recv_error transient) stdin = Some (transient, [], c, [], stdin)"
| "client_pass conv sent c (Interrupted hits) stdin =
     (let (c', closed) = signal_handler hits c in Some (True, [], c', closed, stdin))"

text \<open>
  The loop over a list of inputs: the texts sent, the state and the descriptors closed.
  \<open>None\<close>: with these inputs the loop has not ended, because it goes on polling or because a
  pass does not return.
\<close>

fun client_run ::
  "(int \<Rightarrow> c_int) \<Rightarrow> c_int \<Rightarrow> ClientState \<Rightarrow> client_input list \<Rightarrow> string \<Rightarrow>
     (string list \<times> ClientState \<times> c_int list) option" where
  "client_run conv sent c [] stdin = (if connected c then None else Some ([], c, []))"
| "client_run conv sent c (i # ins) stdin =
     (if \<not> connected c then Some ([], c, [])
      else case client_pass conv sent c i stdin of
        None \<Rightarrow> None
      | Some (go_on, out, c', closed, rest) \<Rightarrow>
          if go_on
          then map_option (\<lambda>(out', c'', closed'). (out @ out', c'', closed @ closed'))
                 (client_run conv sent c' ins rest)
          else Some (out, c', closed))"

text \<open>
  \<^verbatim>\<open>main\<close>: the exit status (0 or 1), the texts sent and the descriptors closed.
\<close>

definition client_main ::
  "(int \<Rightarrow> c_int) \<Rightarrow> connect_env \<Rightarrow> c_int \<Rightarrow> string list \<Rightarrow> client_input list \<Rightarrow> string \<Rightarrow>
     (c_int \<times> string list \<times> c_int list) option" where
  "client_main conv e sent argv ins stdin =
     (let ip = (if length argv > 1 then argv ! 1 else ''127.0.0.1'');
          (ret, c, closed) = client_connect e ip
      in if ret \<noteq> 0 then Some (1, [], closed)
         else map_option (\<lambda>(out, c', closed').
                (0, out, closed @ closed' @ snd (client_disconnect (last_hits e) c')))
              (client_run conv sent c ins stdin))"

section \<open>Lemmas on standard input\<close>

lemma discard_line_newline: "discard_line s = Some r \<Longrightarrow> CHR 0x0A \<in> set s"
proof (rule discard_line.raw_induct [where P = "\<lambda>s r. CHR 0x0A \<in> set s"])
  fix f s r
  assume IH: "\<And>s r. f s = Some r \<Longrightarrow> CHR 0x0A \<in> set s"
    and r: "(if s = [] then f s else if hd s = CHR 0x0A then Some (tl s) else f (tl s)) = Some r"
  show "CHR 0x0A \<in> set s"
    using r IH [of s] IH [of "tl s"] by (cases s) (auto split: if_splits)
qed

text \<open>Neither a number nor a newline to come: reading does not return.\<close>

lemma read_number_hangs:
  "read_number conv stdin = None \<longleftrightarrow>
     scan_d conv stdin = None \<and> discard_line (dropWhile isspace stdin) = None"
  by (auto simp: read_number_def split: option.splits)

text \<open>Numbers typed, one on each line.\<close>

definition typed_lines :: "c_int list \<Rightarrow> string" where
  "typed_lines ts = concat (map (\<lambda>t. fmt_d t @ NL) ts)"

definition awaiting :: "c_int list \<Rightarrow> string \<Rightarrow> bool" where
  "awaiting ts stdin \<longleftrightarrow> (stdin = typed_lines ts \<or> stdin = NL @ typed_lines ts) \<and> (\<forall>t \<in> set ts. in_int t)"

lemma read_number_typed:
  assumes "awaiting (t # ts) stdin"
  shows "read_number conv stdin = Some (Some t, NL @ typed_lines ts)" "awaiting ts (NL @ typed_lines ts)"
proof -
  have "scan_d conv (fmt_d t @ NL @ typed_lines ts) = Some (t, NL @ typed_lines ts)"
    using assms by (intro scan_d_fmt_d) (simp_all add: awaiting_def NL_eq)
  with assms show "read_number conv stdin = Some (Some t, NL @ typed_lines ts)"
    by (auto simp: awaiting_def typed_lines_def read_number_def NL_eq)
  show "awaiting ts (NL @ typed_lines ts)" using assms by (simp add: awaiting_def)
qed

section \<open>Client and server agree on the text\<close>

lemma command_text_fits:
  assumes "in_int a" "in_int b" "in_int c"
  shows "command_text a b c = (fmt_d a @ '' '' @ fmt_d b @ '' '' @ fmt_d c) @ NL"
  using length_fmt_d [OF assms(1)] length_fmt_d [OF assms(2)] length_fmt_d [OF assms(3)]
  by (simp add: command_text_def CLIENT_BUFFER_SIZE_def)

lemma strip_line_plain:
  assumes "CHR 0x00 \<notin> set s" "CHR 0x0A \<notin> set s" "CHR 0x0D \<notin> set s"
  shows "strip_line (s @ NL) = s"
  using assms by (simp add: strip_line_def NL_eq cstr_plain)

lemma strip_line_command_text:
  assumes "in_int a" "in_int b" "in_int c"
  shows "strip_line (command_text a b c) = fmt_d a @ '' '' @ fmt_d b @ '' '' @ fmt_d c"
  unfolding command_text_fits [OF assms] by (rule strip_line_plain) simp_all

lemma parse_command_text:
  assumes "in_int a" "in_int b" "in_int c"
  shows "parse_command conv (strip_line (command_text a b c)) =
     Some \<lparr>cmd_type = CommandType_of_int a, param1 = b, param2 = c\<rparr>"
  using sscanf_ddd_fmt [OF assms, of conv]
  by (simp add: strip_line_command_text [OF assms] parse_command_def)

section \<open>Closing the socket\<close>

lemma client_disconnect_closes:
  "fst (client_disconnect hits c) = c\<lparr>connected := False\<rparr>"
  "snd (client_disconnect hits c) = (if connected c then replicate (Suc hits) (socket_fd c) else [])"
proof -
  show "fst (client_disconnect hits c) = c\<lparr>connected := False\<rparr>"
    by (cases c) (simp add: client_disconnect.simps [of hits])
  show "snd (client_disconnect hits c) = (if connected c then replicate (Suc hits) (socket_fd c) else [])"
  proof (induction hits)
    case (Suc h)
    then show ?case using client_disconnect.simps [of "Suc h" c] by simp
  qed (simp add: client_disconnect.simps)
qed

text \<open>How often the signals of a pass are hit in turn.\<close>

definition pass_hits :: "client_input \<Rightarrow> nat set" where
  "pass_hits i =
     (case i of From_server _ (Some h) \<Rightarrow> {h} | Interrupted h \<Rightarrow> {h} | _ \<Rightarrow> {})"

definition all_hits :: "connect_env \<Rightarrow> client_input list \<Rightarrow> nat set" where
  "all_hits e ins = set_option (welcome_signal e) \<union> \<Union> (pass_hits ` set ins) \<union> {last_hits e}"

text \<open>A pass that leaves the client connected has closed nothing; else it has closed the socket.\<close>

lemma interrupted_closes:
  assumes "interrupted sig c = (c', closed)" "connected c"
  shows "socket_fd c' = socket_fd c \<and>
     (if connected c' then closed = []
      else \<exists>h. sig = Some h \<and> closed = replicate (Suc h) (socket_fd c))"
  using assms client_disconnect_closes [of _ c]
  by (cases sig) (auto simp: interrupted_def signal_handler_def prod_eq_iff)

lemma client_pass_closes:
  assumes "client_pass conv sent c i stdin = Some (go_on, out, c', closed, rest)" "connected c"
  shows "socket_fd c' = socket_fd c \<and>
     (if connected c' then closed = []
      else \<exists>h \<in> pass_hits i. closed = replicate (Suc h) (socket_fd c))"
proof (cases i)
  case (From_server bytes sig)
  then have "interrupted sig c = (c', closed)" using assms(1) by (auto split: prod.splits)
  from interrupted_closes [OF this assms(2)] From_server show ?thesis by (auto simp: pass_hits_def)
next
  case (Interrupted h)
  then have "interrupted (Some h) c = (c', closed)"
    using assms(1) by (auto simp: interrupted_def split: prod.splits)
  from interrupted_closes [OF this assms(2)] Interrupted show ?thesis by (auto simp: pass_hits_def)
qed (use assms in auto)

lemma client_run_disconnected: "\<not> connected c \<Longrightarrow> client_run conv sent c ins stdin = Some ([], c, [])"
  by (cases ins) simp_all

lemma client_run_closes:
  assumes "connected c" "client_run conv sent c ins stdin = Some (out, c', closed)"
  shows "socket_fd c' = socket_fd c \<and>
     (if connected c' then closed = []
      else \<exists>h \<in> \<Union> (pass_hits ` set ins). closed = replicate (Suc h) (socket_fd c))"
  using assms
proof (induction ins arbitrary: c stdin out c' closed)
  case (Cons i ins)
  obtain go_on out1 c1 closed1 rest where
    p: "client_pass conv sent c i stdin = Some (go_on, out1, c1, closed1, rest)"
    using Cons.prems by (cases "client_pass conv sent c i stdin") auto
  note c1 = client_pass_closes [OF p Cons.prems(1)]
  show ?case
  proof (cases "connected c1 \<and> go_on")
    case True
    then obtain out2 closed2 where "client_run conv sent c1 ins rest = Some (out2, c', closed2)"
      "closed = closed1 @ closed2" using Cons.prems p by auto
    with Cons.IH [of c1 rest out2 c' closed2] c1 True show ?thesis by (auto split: if_splits)
  next
    case False
    with Cons.prems p client_run_disconnected [of c1 conv sent ins rest] have "c' = c1" "closed = closed1"
      by (auto split: if_splits)
    with c1 show ?thesis by (auto split: if_splits)
  qed
qed simp

definition connects :: "connect_env \<Rightarrow> bool" where
  "connects e \<longleftrightarrow> 0 \<le> socket_ret e \<and> 0 < pton_ret e \<and> 0 \<le> connect_ret e"

text \<open>The connection made, a signal taken while the welcome text was awaited.\<close>

definition connected_client :: "connect_env \<Rightarrow> string \<Rightarrow> ClientState" where
  "connected_client e ip =
     \<lparr>socket_fd = socket_ret e, connected = welcome_signal e = None, client_server_ip = take 63 ip\<rparr>"

lemma client_connect_result:
  "client_connect e ip =
     (if connects e then
        (0, connected_client e ip,
         case welcome_signal e of None \<Rightarrow> [] | Some h \<Rightarrow> replicate (Suc h) (socket_ret e))
      else (- 1, \<lparr>socket_fd = socket_ret e, connected = False, client_server_ip = take 63 ip\<rparr>,
            if socket_ret e < 0 then [] else [socket_ret e]))"
  using client_disconnect_closes [of _ "\<lparr>socket_fd = socket_ret e, connected = True, client_server_ip = take 63 ip\<rparr>"]
  by (auto simp: client_connect_def connects_def connected_client_def interrupted_def signal_handler_def
      Let_def prod_eq_iff split: option.splits)

text \<open>Whenever the client returns, it has closed its socket.\<close>

lemma client_main_closes:
  assumes "client_main conv e sent argv ins stdin = Some (ret, out, closed)"
  shows "ret = (if connects e then 0 else 1) \<and>
     (if socket_ret e < 0 then closed = []
      else \<exists>h \<in> insert 0 (all_hits e ins). closed = replicate (Suc h) (socket_ret e))"
proof (cases "connects e")
  case True
  define ip where "ip = (if length argv > 1 then argv ! 1 else ''127.0.0.1'')"
  let ?c = "connected_client e ip"
  obtain out' c' closed' where run: "client_run conv sent ?c ins stdin = Some (out', c', closed')"
    using assms True by (auto simp: client_main_def client_connect_result ip_def Let_def)
  with assms True have closed: "ret = 0" "closed =
      (case welcome_signal e of None \<Rightarrow> [] | Some h \<Rightarrow> replicate (Suc h) (socket_ret e)) @ closed' @
      (if connected c' then replicate (Suc (last_hits e)) (socket_fd c') else [])"
    by (simp_all add: client_main_def client_connect_result ip_def Let_def client_disconnect_closes)
  have "\<exists>h \<in> all_hits e ins. closed = replicate (Suc h) (socket_ret e)"
  proof (cases "welcome_signal e")
    case None
    then have "connected ?c" "socket_fd ?c = socket_ret e" by (simp_all add: connected_client_def)
    with client_run_closes [OF _ run] closed(2) None show ?thesis
      by (auto simp: all_hits_def split: if_splits)
  next
    case (Some h)
    then have "\<not> connected ?c" by (simp add: connected_client_def)
    with client_run_disconnected [of ?c] run have "c' = ?c" "closed' = []" by auto
    with closed(2) Some show ?thesis by (auto simp: all_hits_def connected_client_def)
  qed
  moreover have "\<not> socket_ret e < 0" using True by (simp add: connects_def)
  ultimately show ?thesis using True closed(1) by auto
next
  case False
  with assms show ?thesis by (auto simp: client_main_def client_connect_result Let_def)
qed

section \<open>The client returns\<close>

text \<open>The inputs that end the session.\<close>

definition ends_client :: "client_input \<Rightarrow> bool" where
  "ends_client i =
     (case i of Server_closed \<Rightarrow> True | Recv_error transient \<Rightarrow> \<not> transient | Interrupted _ \<Rightarrow> True
      | From_server _ sig \<Rightarrow> sig \<noteq> None | Nothing_ready \<Rightarrow> False)"

lemma client_react_returns:
  assumes "awaiting (t # ts) stdin"
  shows "\<exists>go_on out rest ts'. client_react conv sent c buffer stdin = Some (go_on, out, rest) \<and>
     awaiting ts' rest \<and> length ts \<le> length ts'"
  using assms read_number_typed [OF assms]
  by (auto simp: client_react_def intro: exI [of _ ts] exI [of _ "t # ts"])

lemma client_pass_returns:
  assumes "awaiting (t # ts) stdin"
  obtains go_on out c' closed rest ts' where
    "client_pass conv sent c i stdin = Some (go_on, out, c', closed, rest)"
    "awaiting ts' rest" "length ts \<le> length ts'" "ends_client i \<Longrightarrow> \<not> (go_on \<and> connected c')"
proof (cases i)
  case (From_server bytes sig)
  obtain c1 closed where c1: "interrupted sig c = (c1, closed)" by (metis surj_pair)
  then have "sig \<noteq> None \<Longrightarrow> \<not> connected c1"
    using client_disconnect_closes(1) [of _ c]
    by (cases sig) (auto simp: interrupted_def signal_handler_def prod_eq_iff)
  with From_server c1 client_react_returns [OF assms, of conv sent c1 "cstr bytes"] that show thesis
    by (auto simp: ends_client_def)
next
  case (Interrupted h)
  obtain c1 closed where "client_disconnect h c = (c1, closed)" by (metis surj_pair)
  with Interrupted assms client_disconnect_closes(1) [of h c] that [of True "[]" c1 closed stdin "t # ts"]
  show thesis by (simp add: signal_handler_def)
qed (use assms that [of _ "[]" c "[]" stdin "t # ts"] in \<open>auto simp: ends_client_def\<close>)

lemma client_run_returns:
  assumes "awaiting ts stdin" "length ins \<le> length ts" "connected c \<Longrightarrow> \<exists>i \<in> set ins. ends_client i"
  shows "client_run conv sent c ins stdin \<noteq> None"
  using assms
proof (induction ins arbitrary: c ts stdin)
  case (Cons i ins)
  obtain t ts' where ts: "ts = t # ts'" using Cons.prems(2) by (cases ts) auto
  obtain go_on out c' closed rest us where
    p: "client_pass conv sent c i stdin = Some (go_on, out, c', closed, rest)"
    and us: "awaiting us rest" "length ts' \<le> length us" "ends_client i \<Longrightarrow> \<not> (go_on \<and> connected c')"
    using client_pass_returns Cons.prems(1) unfolding ts by metis
  have "client_run conv sent c' ins rest \<noteq> None" if "go_on" "connected c"
    using that us Cons.prems(2,3) ts by (intro Cons.IH [OF us(1)]) auto
  with p show ?case by auto
next
  case Nil
  then show ?case by auto
qed

section \<open>Properties\<close>

text \<open>
  C13. What the client prints for a command is what the server reads back: for all 32-bit
  values the text of \<^verbatim>\<open>client_send_command\<close> is parsed into the command of that type with
  those parameters.
\<close>

theorem command_text_roundtrip:
  assumes "connected cl" "in_int a" "in_int b" "in_int c"
  shows "\<exists>t. snd (client_send_command sent cl a b c) = [t] \<and>
     parse_command conv (strip_line t) = Some \<lparr>cmd_type = CommandType_of_int a, param1 = b, param2 = c\<rparr>"
  using parse_command_text [OF assms(2-4)] assms(1) by (simp add: client_send_command_def)

theorem command_text_roundtrip_witness:
  "parse_command id (strip_line (command_text 3 (- 2147483648) 2147483647)) =
     Some \<lparr>cmd_type = CMD_SET_BRIGHTNESS, param1 = - 2147483648, param2 = 2147483647\<rparr>"
  using command_text_roundtrip [of "\<lparr>socket_fd = 4, connected = True, client_server_ip = ''127.0.0.1''\<rparr>"
      3 "- 2147483648" 2147483647 1 id]
  by (simp add: client_send_command_def int_range_defs CommandType_of_int_def)

lemma menu_select: "strstr_found (pre @ menu) ''Select:''"
proof -
  have "suffix ''Select: '' menu" by (simp add: menu_def suffix_def)
  then obtain u where "menu = u @ ''Select: ''" by (auto simp: suffix_def)
  then have "pre @ menu = (pre @ u) @ ''Select:'' @ '' ''" by simp
  then show ?thesis unfolding strstr_found_def by (metis sublist_appendI)
qed

lemma prompt_recognised:
  assumes "prompt_for c = Some prompt"
  shows "\<not> strstr_found prompt ''Select:''" "strstr_found prompt ''Enter''"
proof -
  have "\<forall>s \<in> {''Enter brightness level (1-3): '',
      ''Enter music number (1:School Bell, 2:Twinkle Star, 3:Happy Birthday, 4:Butterfly): '',
      ''Enter countdown seconds (1-9): ''}.
      \<not> strstr_found s ''Select:'' \<and> strstr_found s ''Enter''"
    by code_simp
  with assms show "\<not> strstr_found prompt ''Select:''" "strstr_found prompt ''Enter''"
    by (auto simp: prompt_for_def split: if_splits)
qed

lemma client_react_menu:
  assumes "connected cl" "1 \<le> t" "t \<le> 9" "scan_d conv stdin = Some (t, rest)"
  shows "client_react conv sent cl (pre @ menu) stdin = Some (True, [command_text t 0 0], rest)"
  using assms menu_select by (simp add: client_react_def client_send_command_def read_number_def)

lemma client_react_prompt:
  assumes "prompt_for c = Some prompt" "in_int p" "connected cl" "scan_d conv stdin = Some (p, rest)"
  shows "client_react conv sent cl prompt stdin = Some (True, [fmt_d p @ NL], rest)"
  using assms prompt_recognised [OF assms(1)] length_fmt_d [OF assms(2)]
  by (simp add: client_react_def CLIENT_BUFFER_SIZE_def read_number_def)

lemma atoi_answer: "in_int p \<Longrightarrow> atoi conv (cstr (fmt_d p @ NL)) = p"
  using atoi_fmt_d [of p NL conv] by (simp add: cstr_plain NL_eq)

lemma parse_choice:
  assumes "1 \<le> t" "t \<le> 9"
  shows "parse_command conv (strip_line (command_text t 0 0)) =
     Some \<lparr>cmd_type = CommandType_of_int t, param1 = 0, param2 = 0\<rparr>"
  using assms by (intro parse_command_text) (simp_all add: int_range_defs)

lemma prompts:
  assumes "1 \<le> t" "t \<le> 9"
  shows "prompt_for \<lparr>cmd_type = CommandType_of_int t, param1 = 0, param2 = 0\<rparr> \<noteq> None \<longleftrightarrow>
     t \<in> {3, 4, 8}"
    and "CommandType_of_int t \<noteq> CMD_EXIT"
  using assms by (auto simp: prompt_for_def CommandType_of_int_def)

text \<open>
  C12. The menu dialogue fits together: to any text that ends with the server's menu the client
  answers a choice from 1 to 9 that the user types with a line that the server reads as that
  command; for the three commands that take a parameter the server then sends a prompt, which
  the client recognises, and the number typed reaches the server as the command's parameter.
\<close>

theorem menu_dialogue:
  assumes "connected cl" "1 \<le> t" "t \<le> 9" "in_int p"
    and "scan_d conv stdin = Some (t, rest)" "scan_d conv stdin' = Some (p, rest')"
  shows "\<exists>x. client_react conv sent cl (pre @ menu) stdin = Some (True, [x], rest) \<and>
     (if t \<in> {3, 4, 8} then
        \<exists>prompt y. client_react conv sent cl prompt stdin' = Some (True, [y], rest') \<and>
          read_request conv [Received x, Received y] =
            (Submit \<lparr>cmd_type = CommandType_of_int t, param1 = p, param2 = 0\<rparr>, [menu, prompt], [])
      else read_request conv [Received x] =
        (Submit \<lparr>cmd_type = CommandType_of_int t, param1 = 0, param2 = 0\<rparr>, [menu], []))"
proof (cases "prompt_for \<lparr>cmd_type = CommandType_of_int t, param1 = 0, param2 = 0\<rparr>")
  case None
  with client_react_menu [OF assms(1-3,5)] prompts [OF assms(2,3)] parse_choice [OF assms(2,3)]
  show ?thesis by (auto simp: read_request_def next_recv_def)
next
  case (Some prompt)
  with client_react_menu [OF assms(1-3,5)] prompts [OF assms(2,3)] parse_choice [OF assms(2,3)]
    client_react_prompt [OF Some assms(4,1,6)] atoi_answer [OF assms(4)]
  show ?thesis by (auto simp: read_request_def next_recv_def)
qed

definition client_demo :: ClientState where
  "client_demo = \<lparr>socket_fd = 4, connected = True, client_server_ip = ''127.0.0.1''\<rparr>"

lemma client_demo_simps [simp]: "connected client_demo" "socket_fd client_demo = 4"
  by (simp_all add: client_demo_def)

lemma scan_demo:
  "scan_d id (''4'' @ NL) = Some (4, NL)" "scan_d id (NL @ ''3'' @ NL) = Some (3, NL)"
  "scan_d id (''12'' @ NL) = Some (12, NL)"
  by code_simp+

theorem menu_dialogue_witness:
  "\<exists>x prompt y. read_request id [Received x, Received y] =
     (Submit \<lparr>cmd_type = CMD_BUZZER_ON, param1 = 3, param2 = 0\<rparr>, [menu, prompt], [])"
  using menu_dialogue [OF _ _ _ _ scan_demo(1,2), of client_demo 1 "[]"]
  by (auto simp: int_range_defs CommandType_of_int_def)

text \<open>
  Leaving: choice 0 ends the client's loop, and the line it sends makes the server say
  goodbye and end the connection.
\<close>

lemma exit_ends_both:
  assumes "connected cl" "scan_d conv stdin = Some (0, rest)"
  shows "\<exists>x. client_react conv sent cl (pre @ menu) stdin = Some (False, [x], rest) \<and>
     read_request conv [Received x] = (Quit, [menu, ''Disconnecting...'' @ NL], [])"
  using assms menu_select parse_command_text [of 0 0 0 conv]
  by (simp add: client_react_def client_send_command_def read_request_def next_recv_def
      CommandType_of_int_def int_range_defs read_number_def)

lemma length_box_rule [simp]: "length (box_rule l r) = 175"
  by (simp add: box_rule_def length_concat sum_list_replicate)

lemma length_box_row [simp]: "length (box_row s) = length s + 7"
  by (simp add: box_row_def)

lemma length_pad_right [simp]: "length (pad_right k s) = max k (length s)"
  by (simp add: pad_right_def)

lemma length_camera_url: "length (camera_url ip) < 128"
  by (simp add: camera_url_def length_snprintf_trunc)

lemma length_welcome:
  "966 \<le> length (welcome_msg (camera_url ip))" "length (welcome_msg (camera_url ip)) < 1100"
  using length_camera_url [of ip] by (simp_all add: welcome_msg_def snprintf_trunc_def)

text \<open>
  C30. The connecting client reads at most 1023 bytes and drops them. The server sends the
  welcome text and the menu one after the other, so that read may swallow part of the menu;
  whatever it takes, the \<^verbatim>\<open>Select:\<close> that the client's loop waits for is still to come.
\<close>

theorem connect_leaves_select:
  assumes "k < CLIENT_BUFFER_SIZE"
  shows "strstr_found (drop k (welcome_msg (camera_url ip) @ menu)) ''Select:''"
proof -
  have "suffix ''Select: '' menu" by (simp add: menu_def suffix_def)
  then obtain u where u: "menu = u @ ''Select: ''" by (auto simp: suffix_def)
  have "length menu > 200" by (simp add: menu_def)
  then have "length u > 100" by (simp add: u)
  then have "k \<le> length (welcome_msg (camera_url ip) @ u)"
    using assms length_welcome(1) [of ip] by (simp add: CLIENT_BUFFER_SIZE_def)
  then have "drop k (welcome_msg (camera_url ip) @ menu) =
      drop k (welcome_msg (camera_url ip) @ u) @ ''Select:'' @ '' ''"
    by (simp add: u)
  then show ?thesis unfolding strstr_found_def by (metis sublist_appendI)
qed

theorem connect_leaves_select_witness:
  "strstr_found (drop 1023 (welcome_msg (camera_url ''192.168.0.10'') @ menu)) ''Select:''"
  by (rule connect_leaves_select) (simp add: CLIENT_BUFFER_SIZE_def)


definition connect_demo :: connect_env where
  "connect_demo =
     \<lparr>socket_ret = 4, pton_ret = 1, connect_ret = 0, welcome_signal = None, last_hits = 0\<rparr>"


text \<open>A signal in the window does make the client close twice.\<close>

lemma interrupted_disconnect_closes_twice:
  "client_main conv (connect_demo\<lparr>last_hits := 1\<rparr>) sent argv [Server_closed] stdin = Some (0, [], [4, 4])"
  by (simp add: client_main_def client_connect_def connect_demo_def interrupted_def
      client_disconnect.simps Let_def)

text \<open>
  C40. At the end of its input the client hangs. When the server's text asks for a number and
  standard input has no number and no further line, the client never returns: whatever signal
  arrives while it reads, and whatever the server does and whichever signals arrive later,
  no list of inputs makes the loop end.
\<close>

theorem client_hangs_at_end_of_input:
  assumes "connected c" "strstr_found (cstr bytes) ''Select:'' \<or> strstr_found (cstr bytes) ''Enter''"
    and "scan_d conv stdin = None" "CHR 0x0A \<notin> set (dropWhile isspace stdin)"
  shows "client_run conv sent c (From_server bytes sig # ins) stdin = None"
proof -
  have "read_number conv stdin = None"
    using assms(3,4) discard_line_newline [of "dropWhile isspace stdin"]
    by (cases "discard_line (dropWhile isspace stdin)") (auto simp: read_number_hangs)
  with assms(2) have "client_react conv sent c' (cstr bytes) stdin = None" for c'
    by (auto simp: client_react_def)
  with assms(1) show ?thesis by (simp add: split_beta Let_def)
qed

theorem client_hangs_at_end_of_input_witness:
  "client_run id 1 client_demo
     [From_server ''Select: '' None, Interrupted 0, Server_closed] NL = None"
  by (rule client_hangs_at_end_of_input) (simp, code_simp+)

text \<open>
  Given the lines \<open>xs\<close> the server, in one turn, goes on to wait for another one, having sent
  the given texts.
\<close>

definition server_waits :: "(int \<Rightarrow> c_int) \<Rightarrow> string list \<Rightarrow> bool" where
  "server_waits conv xs \<longleftrightarrow>
     Disconnected \<notin> set (snd (snd (read_request conv (map Received xs @ [Disconnected]))))"

definition server_says :: "(int \<Rightarrow> c_int) \<Rightarrow> string list \<Rightarrow> string list" where
  "server_says conv xs = fst (snd (read_request conv (map Received xs @ [Disconnected])))"

lemma menu_plain: "CHR 0x00 \<notin> set menu"
  by code_simp

lemma server_waits_first: "server_waits conv []" "server_says conv [] = [menu]"
  by (simp_all add: server_waits_def server_says_def read_request_def next_recv_def)

lemma server_takes_choice:
  assumes "0 \<le> t" "t \<le> 9"
  shows "\<not> (server_waits conv [command_text t 0 0] \<and> server_says conv [command_text t 0 0] = [menu])"
proof -
  have "parse_command conv (strip_line (command_text t 0 0)) =
     Some \<lparr>cmd_type = CommandType_of_int t, param1 = 0, param2 = 0\<rparr>"
    using assms by (intro parse_command_text) (simp_all add: int_range_defs)
  then show ?thesis
    by (auto simp: server_waits_def server_says_def read_request_def next_recv_def split: option.splits)
qed

text \<open>
  C39. What the user answers to the menu keeps the dialogue going or ends it exactly when it is
  a number from 0 to 9. Any other number, and a line that is no number, makes the client send
  nothing while the server still waits for a line and has said nothing since its menu; from
  there the client goes on polling, as often as you like, without a change: both sides wait
  for each other.
\<close>

theorem invalid_choice_deadlocks:
  assumes "connected cl" "CHR 0x00 \<notin> set pre" "read_number conv stdin = Some (typed, rest)"
  shows "\<exists>xs. client_react conv sent cl (pre @ menu) stdin = Some (typed \<noteq> Some 0, xs, rest) \<and>
     (server_waits conv xs \<and> server_says conv xs = [menu] \<longleftrightarrow> typed \<notin> Some ` {0..9}) \<and>
     (typed \<notin> Some ` {0..9} \<longrightarrow>
        client_run conv sent cl (From_server (pre @ menu) None # replicate n Nothing_ready @ ins) stdin =
        client_run conv sent cl ins rest)"
proof -
  have cstr: "cstr (pre @ menu) = pre @ menu"
    using assms(2) menu_plain by (intro cstr_plain) simp
  have poll: "client_run conv sent cl (replicate n Nothing_ready @ ins) rest = client_run conv sent cl ins rest"
  proof (induction n)
    case (Suc n)
    with assms(1) show ?case by (simp add: option.map_ident option.map_id)
  qed simp
  show ?thesis
  proof (cases "typed \<in> Some ` {0..9}")
    case True
    then obtain t where t: "typed = Some t" "0 \<le> t" "t \<le> 9" by auto
    with assms menu_select have
      "client_react conv sent cl (pre @ menu) stdin = Some (typed \<noteq> Some 0, [command_text t 0 0], rest)"
      by (simp add: client_react_def client_send_command_def)
    with True server_takes_choice [OF t(2,3), of conv] show ?thesis
      by (intro exI [of _ "[command_text t 0 0]"]) simp
  next
    case False
    have react: "client_react conv sent cl (pre @ menu) stdin = Some (True, [], rest)" "typed \<noteq> Some 0"
      using False assms(3) menu_select by (auto simp: client_react_def split: option.splits)
    moreover have "client_run conv sent cl (From_server (pre @ menu) None # replicate n Nothing_ready @ ins) stdin =
        client_run conv sent cl ins rest"
      using assms(1) react(1) poll by (simp add: cstr interrupted_def option.map_ident option.map_id)
    ultimately show ?thesis using False server_waits_first [of conv]
      by (intro exI [of _ "[]"]) simp
  qed
qed

theorem invalid_choice_deadlocks_witness:
  "\<exists>xs. client_react id 1 client_demo menu (''12'' @ NL) = Some (True, xs, NL) \<and>
     server_waits id xs \<and> server_says id xs = [menu]"
proof -
  have "read_number id (''12'' @ NL) = Some (Some 12, NL)"
    by (simp add: read_number_def scan_demo del: append.simps)
  from invalid_choice_deadlocks [of client_demo "[]" id "''12'' @ NL" _ _ 1, OF _ _ this, where n = 0 and ins = "[]"]
  show ?thesis by (auto simp del: append.simps(2))
qed

end
