(* ===== verification/Server_Threads.thy ===== *)
theory Server_Threads
  imports Communication
begin

text \<open>
  The threads of the running server interleaved: the communication thread between a request
  and its answer (\<^verbatim>\<open>communication.c\<close>, lines 163 to 196), the device thread with both its
  loops (\<^verbatim>\<open>device_control.c\<close>, lines 229 to 333), the counting and playing threads of the
  libraries, the countdown callback, and the signal that ends the server. \<^verbatim>\<open>queue_mutex\<close> is
  explicit and a wait on a condition variable gives it up. A critical section of
  \<^verbatim>\<open>state_mutex\<close> contains no wait, so it is part of one step; a command's handler is one
  step. Waits may time out or end without a signal at any time.
\<close>

section \<open>States\<close>

datatype thread_id = Comm_thread | Device_thread

datatype comm_pc =
    Closed                              \<comment> \<open>no client\<close>
  | Reading                             \<comment> \<open>at the loop's test and reading the next request\<close>
  | Submitting Command                  \<comment> \<open>about to lock queue_mutex\<close>
  | Waiting Command                     \<comment> \<open>in pthread_cond_timedwait on response_ready\<close>
  | Notified Command                    \<comment> \<open>the wait returned 0, the mutex not yet locked again\<close>
  | Timed_out Command                   \<comment> \<open>the wait timed out, the mutex not yet locked again\<close>
  | Replying Command CommandResponse    \<comment> \<open>has copied the response and unlocked\<close>

datatype device_pc =
    Outer                               \<comment> \<open>at the outer loop's test\<close>
  | Locked                              \<comment> \<open>holds queue_mutex, at the inner loop's test\<close>
  | Sleeping                            \<comment> \<open>in pthread_cond_timedwait on queue_not_empty\<close>
  | Awake                               \<comment> \<open>the wait is over, the mutex not yet locked again\<close>
  | Checking                            \<comment> \<open>holds queue_mutex, about to read sensor_monitoring\<close>
  | Monitoring                          \<comment> \<open>has unlocked, about to handle the sensor\<close>
  | Relocking                           \<comment> \<open>about to lock queue_mutex again\<close>
  | Popped addr                         \<comment> \<open>has taken a command and unlocked\<close>
  | Answering addr Command CommandResponse
  | Freeing addr
  | Looking                             \<comment> \<open>about to check sensor_monitoring after a command\<close>
  | Stopped

record sys =
  snode :: node
  queue_mutex :: "thread_id option"
  comm :: comm_pc
  device :: device_pc

definition sys_start :: "node \<Rightarrow> sys" where
  "sys_start n = \<lparr>snode = n, queue_mutex = None, comm = Closed, device = Outer\<rparr>"

text \<open>\<^verbatim>\<open>pthread_cond_signal\<close> on the two condition variables.\<close>

definition signal_not_empty :: "device_pc \<Rightarrow> device_pc" where
  "signal_not_empty d = (if d = Sleeping then Awake else d)"

fun signal_response :: "comm_pc \<Rightarrow> comm_pc" where
  "signal_response (Waiting c) = Notified c"
| "signal_response pc = pc"

section \<open>Steps\<close>

text \<open>
  The label of a step: \<open>Lapse\<close> is a wait of the communication thread that ends without a
  signal, by its timeout or spuriously.
\<close>

datatype sys_event = By_comm | By_device | By_library | Lapse | Interrupt

inductive comm_step :: "sys \<Rightarrow> sys_event \<Rightarrow> sys \<Rightarrow> bool" where
  c_accept: "comm S = Closed \<Longrightarrow> server_running (srv (snode S)) \<Longrightarrow>
    comm_step S By_comm
      (S\<lparr>snode := upd_srv (\<lambda>s. s\<lparr>client_socket := fd, client_connected := True\<rparr>) (snode S),
        comm := Reading\<rparr>)"
| c_close: "comm S = Reading \<Longrightarrow> comm_step S By_comm (S\<lparr>snode := comm_close (snode S), comm := Closed\<rparr>)"
| c_read: "comm S = Reading \<Longrightarrow> server_running (srv (snode S)) \<Longrightarrow>
    comm_step S By_comm (S\<lparr>comm := Submitting c\<rparr>)"
| c_submit: "comm S = Submitting c \<Longrightarrow> queue_mutex S = None \<Longrightarrow> p \<notin> dom (cmds (snode S)) \<Longrightarrow>
    queue_push (Some p) c (cmds (snode S)) (cmd_queue (srv (snode S))) = Inr (True, h, q) \<Longrightarrow>
    comm_step S By_comm
      (S\<lparr>snode := upd_srv (\<lambda>s. s\<lparr>cmd_queue := q\<rparr>) ((snode S)\<lparr>cmds := h\<rparr>),
        comm := Waiting c, device := signal_not_empty (device S)\<rparr>)"
| c_refused: "comm S = Submitting c \<Longrightarrow> queue_mutex S = None \<Longrightarrow>
    queue_push m c (cmds (snode S)) (cmd_queue (srv (snode S))) = Inr (False, h, q) \<Longrightarrow>
    comm_step S By_comm
      (S\<lparr>snode := upd_srv (\<lambda>s. s\<lparr>cmd_queue := q\<rparr>) ((snode S)\<lparr>cmds := h\<rparr>), comm := Reading\<rparr>)"
| c_timeout: "comm S = Waiting c \<Longrightarrow> comm_step S Lapse (S\<lparr>comm := Timed_out c\<rparr>)"
| c_spurious: "comm S = Waiting c \<Longrightarrow> comm_step S Lapse (S\<lparr>comm := Notified c\<rparr>)"
| c_answer: "comm S = Notified c \<Longrightarrow> queue_mutex S = None \<Longrightarrow>
    comm_step S By_comm (S\<lparr>comm := Replying c (response (srv (snode S)))\<rparr>)"
| c_give_up: "comm S = Timed_out c \<Longrightarrow> queue_mutex S = None \<Longrightarrow>
    comm_step S By_comm (S\<lparr>comm := Reading\<rparr>)"
| c_reply: "comm S = Replying c r \<Longrightarrow> comm_step S By_comm (S\<lparr>comm := Reading\<rparr>)"

inductive device_step :: "sys \<Rightarrow> sys \<Rightarrow> bool" where
  d_end: "device S = Outer \<Longrightarrow> \<not> server_running (srv (snode S)) \<Longrightarrow>
    device_step S (S\<lparr>device := Stopped\<rparr>)"
| d_lock: "device S = Outer \<Longrightarrow> server_running (srv (snode S)) \<Longrightarrow> queue_mutex S = None \<Longrightarrow>
    device_step S (S\<lparr>device := Locked, queue_mutex := Some Device_thread\<rparr>)"
| d_wait: "device S = Locked \<Longrightarrow> server_running (srv (snode S)) \<Longrightarrow>
    queue_is_empty (cmd_queue (srv (snode S))) \<Longrightarrow>
    device_step S (S\<lparr>device := Sleeping, queue_mutex := None\<rparr>)"
| d_quit: "device S = Locked \<Longrightarrow> \<not> server_running (srv (snode S)) \<Longrightarrow>
    device_step S (S\<lparr>device := Stopped, queue_mutex := None\<rparr>)"
| d_pop: "device S = Locked \<Longrightarrow> server_running (srv (snode S)) \<Longrightarrow>
    \<not> queue_is_empty (cmd_queue (srv (snode S))) \<Longrightarrow>
    queue_pop (cmd_queue (srv (snode S))) = Inr (Some p, q) \<Longrightarrow>
    device_step S (S\<lparr>snode := upd_srv (\<lambda>s. s\<lparr>cmd_queue := q\<rparr>) (snode S), device := Popped p,
      queue_mutex := None\<rparr>)"
| d_wake: "device S = Sleeping \<Longrightarrow> device_step S (S\<lparr>device := Awake\<rparr>)"
| d_awake: "device S = Awake \<Longrightarrow> queue_mutex S = None \<Longrightarrow>
    device_step S (S\<lparr>device := Checking, queue_mutex := Some Device_thread\<rparr>)"
| d_check: "device S = Checking \<Longrightarrow>
    device_step S (if sensor_monitoring (srv (snode S)) then S\<lparr>device := Monitoring, queue_mutex := None\<rparr>
                   else S\<lparr>device := Locked\<rparr>)"
| d_monitor: "device S = Monitoring \<Longrightarrow>
    device_step S (S\<lparr>snode := handle_sensor_monitoring env (snode S), device := Relocking\<rparr>)"
| d_relock: "device S = Relocking \<Longrightarrow> queue_mutex S = None \<Longrightarrow>
    device_step S (S\<lparr>device := Locked, queue_mutex := Some Device_thread\<rparr>)"
| d_process: "device S = Popped p \<Longrightarrow> cmds (snode S) p = Some c \<Longrightarrow>
    process_command env c (snode S) = (n, r) \<Longrightarrow>
    device_step S (S\<lparr>snode := n, device := Answering p c r\<rparr>)"
| d_answer: "device S = Answering p c r \<Longrightarrow> status r \<noteq> - 2 \<Longrightarrow> queue_mutex S = None \<Longrightarrow>
    device_step S (S\<lparr>snode := upd_srv (\<lambda>s. s\<lparr>response := r\<rparr>) (snode S), device := Freeing p,
      comm := signal_response (comm S)\<rparr>)"
| d_silent: "device S = Answering p c r \<Longrightarrow> status r = - 2 \<Longrightarrow> free_cmd p (cmds (snode S)) = Inr h \<Longrightarrow>
    device_step S (S\<lparr>snode := (snode S)\<lparr>cmds := h\<rparr>,
      device := (if cmd_type c = CMD_BUZZER_ON then Outer else Looking)\<rparr>)"
| d_free: "device S = Freeing p \<Longrightarrow> free_cmd p (cmds (snode S)) = Inr h \<Longrightarrow>
    device_step S (S\<lparr>snode := (snode S)\<lparr>cmds := h\<rparr>, device := Looking\<rparr>)"
| d_look: "device S = Looking \<Longrightarrow>
    device_step S (S\<lparr>snode := check_monitoring env (snode S), device := Outer\<rparr>)"

text \<open>
  A step of a counting thread is a step of its machine; the step that calls the callback runs
  \<^verbatim>\<open>countdown_complete_callback\<close> as well.
\<close>

inductive library_step :: "node \<Rightarrow> node \<Rightarrow> bool" where
  l_count: "j < length (counters (seg n)) \<Longrightarrow> thread_pc (counters (seg n) ! j) \<noteq> Notify \<Longrightarrow>
    count_step (thread_callback (counters (seg n) ! j)) (thread_pc (counters (seg n) ! j)) (seg7 (seg n)) = (pc, s) \<Longrightarrow>
    library_step n (count_tick j pc s n)"
| l_callback: "j < length (counters (seg n)) \<Longrightarrow> thread_pc (counters (seg n) ! j) = Notify \<Longrightarrow>
    library_step n (countdown_complete_callback env (count_tick j Ended (seg7 (seg n)) n))"
| l_music: "j < length (players (buz n)) \<Longrightarrow>
    music_step (m_data (players (buz n) ! j)) (m_pc (players (buz n) ! j)) (buzzer (buz n)) = Inr (pc, b) \<Longrightarrow>
    library_step n (music_tick j pc b n)"

inductive sys_step :: "sys \<Rightarrow> sys_event \<Rightarrow> sys \<Rightarrow> bool" where
  by_comm: "comm_step S e T \<Longrightarrow> sys_step S e T"
| by_device: "device_step S T \<Longrightarrow> sys_step S By_device T"
| by_library: "library_step (snode S) n \<Longrightarrow> sys_step S By_library (S\<lparr>snode := n\<rparr>)"
| by_signal: "sys_step S Interrupt (S\<lparr>snode := upd_srv (\<lambda>s. s\<lparr>server_running := False\<rparr>) (snode S)\<rparr>)"

inductive sys_trace :: "sys \<Rightarrow> sys_event list \<Rightarrow> sys \<Rightarrow> bool" where
  sys_nil: "sys_trace S [] S"
| sys_snoc: "sys_trace S es T \<Longrightarrow> sys_step T e U \<Longrightarrow> sys_trace S (es @ [e]) U"

inductive_cases comm_stepE: "comm_step S e T"
inductive_cases device_stepE: "device_step S T"
inductive_cases library_stepE: "library_step n n'"
inductive_cases sys_stepE: "sys_step S e T"

section \<open>Safety of every interleaving\<close>

text \<open>The command that the device thread has taken from the queue and not yet freed.\<close>

fun held :: "device_pc \<Rightarrow> addr set" where
  "held (Popped p) = {p}"
| "held (Answering p c r) = {p}"
| "held (Freeing p) = {p}"
| "held _ = {}"

text \<open>Every allocated command is in the queue or held by the device thread, and not both.\<close>

definition heap_ok :: "node \<Rightarrow> addr set \<Rightarrow> bool" where
  "heap_ok n H \<longleftrightarrow>
     queue_inv (cmds n) (cmd_queue (srv n)) \<and>
     dom (cmds n) = set (queue_addrs (cmd_queue (srv n))) \<union> H \<and>
     H \<inter> set (queue_addrs (cmd_queue (srv n))) = {}"

definition lock_ok :: "sys \<Rightarrow> bool" where
  "lock_ok S \<longleftrightarrow>
     queue_mutex S = (if device S = Locked \<or> device S = Checking then Some Device_thread else None)"

definition sys_inv :: "sys \<Rightarrow> bool" where
  "sys_inv S \<longleftrightarrow>
     heap_ok (snode S) (held (device S)) \<and> libs_ok (snode S) \<and> lock_ok S \<and>
     (device S = Stopped \<longrightarrow> \<not> server_running (srv (snode S)))"

lemma signal_not_Stopped [simp]: "signal_not_empty d = Stopped \<longleftrightarrow> d = Stopped"
  by (simp add: signal_not_empty_def)

lemma running_comm_close [simp]: "server_running (srv (comm_close n)) = server_running (srv n)"
  by (simp add: comm_close_def)

lemma held_signal [simp]: "held (signal_not_empty d) = held d"
  by (simp add: signal_not_empty_def)

lemma heap_ok_cong:
  assumes "cmds n' = cmds n" "cmd_queue (srv n') = cmd_queue (srv n)"
  shows "heap_ok n' H = heap_ok n H"
  using assms by (simp add: heap_ok_def)

lemma heap_ok_frame [simp]:
  "heap_ok (fst (process_command env c n)) H = heap_ok n H"
  "heap_ok (handle_sensor_monitoring env n) H = heap_ok n H"
  "heap_ok (check_monitoring env n) H = heap_ok n H"
  "heap_ok (comm_close n) H = heap_ok n H"
  "heap_ok (upd_srv (\<lambda>s. s\<lparr>response := r\<rparr>) n) H = heap_ok n H"
  "heap_ok (upd_srv (\<lambda>s. s\<lparr>server_running := b\<rparr>) n) H = heap_ok n H"
  "heap_ok (upd_srv (\<lambda>s. s\<lparr>client_socket := k, client_connected := b\<rparr>) n) H = heap_ok n H"
  by (simp_all add: heap_ok_def comm_close_def)

lemma libs_ok_frame [simp]:
  "libs_ok (comm_close n) = libs_ok n"
  "libs_ok (upd_srv (\<lambda>s. s\<lparr>server_running := b\<rparr>) n) = libs_ok n"
  "libs_ok (upd_srv (\<lambda>s. s\<lparr>client_socket := k, client_connected := b\<rparr>) n) = libs_ok n"
  by (simp_all add: libs_ok_def comm_close_def)

lemma heap_ok_push:
  assumes "heap_ok n H" "p \<notin> dom (cmds n)"
    "queue_push (Some p) c (cmds n) (cmd_queue (srv n)) = Inr (True, h, q)"
  shows "heap_ok (upd_srv (\<lambda>s. s\<lparr>cmd_queue := q\<rparr>) (n\<lparr>cmds := h\<rparr>)) H"
    and "queue_addrs q = queue_addrs (cmd_queue (srv n)) @ [p]" and "h = (cmds n)(p \<mapsto> c)"
proof -
  have inv: "queue_inv (cmds n) (cmd_queue (srv n))" using assms(1) by (simp add: heap_ok_def)
  have "length (queue_addrs (cmd_queue (srv n))) < 100"
    using queue_push_full [OF inv, of "Some p" c] queue_inv_length [OF inv] assms(3) by fastforce
  from queue_push_room [OF inv this assms(2)] obtain q' where
    "queue_push (Some p) c (cmds n) (cmd_queue (srv n)) = Inr (True, (cmds n)(p \<mapsto> c), q')"
    "queue_inv ((cmds n)(p \<mapsto> c)) q'" "queue_addrs q' = queue_addrs (cmd_queue (srv n)) @ [p]"
    by metis
  moreover have "dom ((cmds n)(p \<mapsto> c)) = set (queue_addrs (cmd_queue (srv n)) @ [p]) \<union> H"
    "H \<inter> set (queue_addrs (cmd_queue (srv n)) @ [p]) = {}"
    using assms(1,2) by (simp_all add: heap_ok_def)
  ultimately show "heap_ok (upd_srv (\<lambda>s. s\<lparr>cmd_queue := q\<rparr>) (n\<lparr>cmds := h\<rparr>)) H"
    "queue_addrs q = queue_addrs (cmd_queue (srv n)) @ [p]" "h = (cmds n)(p \<mapsto> c)"
    using assms(3) by (simp_all add: heap_ok_def)
qed

lemma queue_push_refused:
  assumes "queue_inv h q" "queue_push m c h q = Inr (False, h', q')"
  shows "h' = h \<and> q' = q"
  using assms by (auto simp: queue_push_def checked_bind_def split: if_splits option.splits sum.splits)

lemma heap_ok_pop:
  assumes "heap_ok n {}" "queue_pop (cmd_queue (srv n)) = Inr (Some p, q)"
  shows "heap_ok (upd_srv (\<lambda>s. s\<lparr>cmd_queue := q\<rparr>) n) {p}"
    and "queue_addrs (cmd_queue (srv n)) = p # queue_addrs q"
proof -
  have inv: "queue_inv (cmds n) (cmd_queue (srv n))" using assms(1) by (simp add: heap_ok_def)
  have "queue_addrs (cmd_queue (srv n)) \<noteq> []" using queue_pop_empty [OF inv] assms(2) by auto
  then obtain p' ps where ps: "queue_addrs (cmd_queue (srv n)) = p' # ps"
    by (cases "queue_addrs (cmd_queue (srv n))") auto
  from queue_pop_Cons [OF inv this] assms(2) have "p' = p" "queue_inv (cmds n) q" "queue_addrs q = ps"
    by auto
  with assms(1) ps queue_inv_distinct [OF inv] show
    "heap_ok (upd_srv (\<lambda>s. s\<lparr>cmd_queue := q\<rparr>) n) {p}" "queue_addrs (cmd_queue (srv n)) = p # queue_addrs q"
    by (auto simp: heap_ok_def)
qed

lemma heap_ok_free:
  assumes "heap_ok n {p}" "free_cmd p (cmds n) = Inr h"
  shows "heap_ok (n\<lparr>cmds := h\<rparr>) {}"
proof -
  have "h = (cmds n)(p := None)" using assms(2) by (auto simp: free_cmd_def split: option.splits)
  with assms(1) queue_inv_free [of "cmds n" "cmd_queue (srv n)" _ p] show ?thesis
    by (auto simp: heap_ok_def)
qed

lemma library_step_ok:
  assumes "library_step n n'" "libs_ok n"
  shows "libs_ok n'" "cmds n' = cmds n" "cmd_queue (srv n') = cmd_queue (srv n)"
    "response (srv n') = response (srv n)" "server_running (srv n') = server_running (srv n)"
proof -
  from assms show "libs_ok n'"
  proof cases
    case (l_callback j env)
    with count_tick_libs [OF l_callback(2) assms(2), of Ended "seg7 (seg n)"] show ?thesis
      by (simp add: countdown_callback_libs_ok)
  qed (auto intro: count_tick_libs music_tick_libs)
  from assms(1) show "cmds n' = cmds n" by cases simp_all
  from assms(1) show "cmd_queue (srv n') = cmd_queue (srv n)" by cases simp_all
  from assms(1) show "response (srv n') = response (srv n)" by cases simp_all
  from assms(1) show "server_running (srv n') = server_running (srv n)" by cases simp_all
qed

lemma comm_step_inv: "comm_step S e T \<Longrightarrow> sys_inv S \<Longrightarrow> sys_inv T"
proof (induction rule: comm_step.induct)
  case (c_submit S c p h q)
  then have "lock_ok (S\<lparr>snode := n, comm := Waiting c, device := signal_not_empty (device S)\<rparr>)" for n
    by (auto simp: sys_inv_def lock_ok_def signal_not_empty_def)
  with c_submit heap_ok_push [of "snode S" "held (device S)" p c h q] show ?case
    by (simp add: sys_inv_def)
next
  case (c_refused S c m h q)
  then have "h = cmds (snode S) \<and> q = cmd_queue (srv (snode S))"
    using queue_push_refused by (auto simp: sys_inv_def heap_ok_def)
  with c_refused show ?case by (simp add: sys_inv_def heap_ok_def lock_ok_def)
qed (simp_all add: sys_inv_def lock_ok_def)

lemma device_step_inv: "device_step S T \<Longrightarrow> sys_inv S \<Longrightarrow> sys_inv T"
proof (induction rule: device_step.induct)
  case (d_pop S p q)
  with heap_ok_pop [of "snode S" p q] show ?case by (simp add: sys_inv_def lock_ok_def)
next
  case (d_process S p c env n r)
  then have "n = fst (process_command env c (snode S))" by simp
  with d_process show ?case by (simp add: sys_inv_def lock_ok_def process_command_libs_ok)
next
  case (d_free S p h)
  with heap_ok_free [of "snode S" p h] show ?case by (simp add: sys_inv_def lock_ok_def)
next
  case (d_silent S p c r h)
  with heap_ok_free [of "snode S" p h] show ?case by (simp add: sys_inv_def lock_ok_def)
qed (auto simp: sys_inv_def lock_ok_def handle_sensor_monitoring_libs_ok check_monitoring_libs_ok)

lemma sys_step_inv: "sys_step S e T \<Longrightarrow> sys_inv S \<Longrightarrow> sys_inv T"
proof (induction rule: sys_step.induct)
  case (by_library S n)
  with library_step_ok [OF by_library(1)] heap_ok_cong [of n "snode S"] show ?case
    by (simp add: sys_inv_def lock_ok_def)
qed (auto simp: sys_inv_def lock_ok_def dest: comm_step_inv device_step_inv)

lemma sys_trace_inv: "sys_trace S es T \<Longrightarrow> sys_inv S \<Longrightarrow> sys_inv T"
  by (induction rule: sys_trace.induct) (auto intro: sys_step_inv)

text \<open>The handlers run \<^verbatim>\<open>seg7_counting\<close> whole: no call is ever between its two parts.\<close>

lemma node_starting [simp]:
  "starting (seg (snd (node_count env k n))) = starting (seg n)"
  by (simp add: node_count_def split: prod.splits option.splits)

lemma starting_frame [simp]:
  "starting (seg (fst (process_command env c n))) = starting (seg n)"
  "starting (seg (handle_sensor_monitoring env n)) = starting (seg n)"
  "starting (seg (check_monitoring env n)) = starting (seg n)"
  "starting (seg (comm_close n)) = starting (seg n)"
  "starting (seg (countdown_complete_callback env n)) = starting (seg n)"
  "starting (seg (count_tick j pc s n)) = starting (seg n)"
  "starting (seg (music_tick j pc' b n)) = starting (seg n)"
  by (cases "cmd_type c"; simp add: handler_defs Let_def split_beta check_monitoring_def
      handle_sensor_monitoring_def comm_close_def countdown_complete_callback_def count_tick_def music_tick_def)+

lemma device_step_starting: "device_step S T \<Longrightarrow> starting (seg (snode T)) = starting (seg (snode S))"
proof (induction rule: device_step.induct)
  case (d_process S p c env n r)
  from starting_frame(1) [of env c "snode S"] d_process(3) show ?case by simp
qed simp_all

lemma sys_step_starting: "sys_step S e T \<Longrightarrow> starting (seg (snode T)) = starting (seg (snode S))"
proof (induction rule: sys_step.induct)
  case (by_comm S e T)
  then show ?case by cases simp_all
next
  case (by_library S n)
  then show ?case by cases simp_all
qed (simp_all add: device_step_starting)

lemma sys_trace_starting: "sys_trace S es T \<Longrightarrow> starting (seg (snode T)) = starting (seg (snode S))"
  by (induction rule: sys_trace.induct) (simp_all add: sys_step_starting)

lemma sys_start_inv: "idle n \<Longrightarrow> sys_inv (sys_start n)"
  by (simp add: sys_inv_def sys_start_def lock_ok_def heap_ok_def idle_def queue_ok_def queue_owns_def)

section \<open>Answers belong to their requests\<close>

text \<open>The commands submitted and not yet answered, the one in work first.\<close>

fun in_work :: "cmd_heap \<Rightarrow> device_pc \<Rightarrow> Command list" where
  "in_work h (Popped p) = [the (h p)]"
| "in_work h (Answering p c r) = [c]"
| "in_work h _ = []"

definition unanswered :: "sys \<Rightarrow> Command list" where
  "unanswered S =
     in_work (cmds (snode S)) (device S) @
     map (\<lambda>p. the (cmds (snode S) p)) (queue_addrs (cmd_queue (srv (snode S))))"

text \<open>A response that the handler of the command gives in some state of the devices.\<close>

definition answers :: "Command \<Rightarrow> CommandResponse \<Rightarrow> bool" where
  "answers c r \<longleftrightarrow> (\<exists>env n. libs_ok n \<and> r = snd (process_command env c n))"

fun comm_paired :: "comm_pc \<Rightarrow> Command list \<Rightarrow> CommandResponse \<Rightarrow> bool" where
  "comm_paired (Waiting c) cs r = (cs = [c])"
| "comm_paired (Notified c) cs r = (cs = [] \<and> answers c r)"
| "comm_paired (Timed_out c) cs r = False"
| "comm_paired (Replying c r') cs r = (cs = [] \<and> answers c r')"
| "comm_paired _ cs r = (cs = [])"

definition paired :: "sys \<Rightarrow> bool" where
  "paired S \<longleftrightarrow>
     comm_paired (comm S) (unanswered S) (response (srv (snode S))) \<and>
     (\<forall>p c r. device S = Answering p c r \<longrightarrow> answers c r)"

lemma answers_status: "answers c r \<Longrightarrow> status r \<noteq> - 2"
  by (auto simp: answers_def)

lemma in_work_signal [simp]: "in_work h (signal_not_empty d) = in_work h d"
  by (simp add: signal_not_empty_def)

lemma in_work_heap: "in_work h d = [] \<Longrightarrow> in_work h' d = []"
  by (cases d) simp_all

lemma signal_not_empty_Answering [simp]:
  "signal_not_empty d = Answering p c r \<longleftrightarrow> d = Answering p c r"
  by (auto simp: signal_not_empty_def)

lemma submit_paired:
  assumes "comm S = Submitting c" "p \<notin> dom (cmds (snode S))" "sys_inv S" "paired S"
    "queue_push (Some p) c (cmds (snode S)) (cmd_queue (srv (snode S))) = Inr (True, h, q)"
  shows "paired (S\<lparr>snode := upd_srv (\<lambda>s. s\<lparr>cmd_queue := q\<rparr>) ((snode S)\<lparr>cmds := h\<rparr>),
    comm := Waiting c, device := signal_not_empty (device S)\<rparr>)"
proof -
  have "heap_ok (snode S) (held (device S))" using assms(3) by (simp add: sys_inv_def)
  note push = heap_ok_push(2,3) [OF this assms(2,5)]
  have empty: "in_work (cmds (snode S)) (device S) = []" "queue_addrs (cmd_queue (srv (snode S))) = []"
    and ans: "\<forall>p c r. device S = Answering p c r \<longrightarrow> answers c r"
    using assms(1,4) by (simp_all add: paired_def unanswered_def)
  have "queue_addrs q = [p]" "h p = Some c" using push empty(2) by simp_all
  with in_work_heap [OF empty(1), of h] ans show ?thesis by (simp add: paired_def unanswered_def)
qed

lemma comm_step_paired:
  assumes "comm_step S e T" "e \<noteq> Lapse" "sys_inv S" "paired S"
  shows "paired T"
  using assms
proof (induction rule: comm_step.induct)
  case (c_submit S c p h q)
  show ?case by (rule submit_paired [OF c_submit(1,3,6,7,4)])
next
  case (c_refused S c m h q)
  have "queue_inv (cmds (snode S)) (cmd_queue (srv (snode S)))"
    using c_refused(5) by (simp add: sys_inv_def heap_ok_def)
  from queue_push_refused [OF this c_refused(3)] c_refused(1,6) show ?case
    by (simp add: paired_def unanswered_def)
qed (simp_all add: paired_def unanswered_def comm_close_def)

lemma pop_paired:
  assumes "device S = Locked" "sys_inv S" "paired S"
    "queue_pop (cmd_queue (srv (snode S))) = Inr (Some p, q)"
  shows "paired (S\<lparr>snode := upd_srv (\<lambda>s. s\<lparr>cmd_queue := q\<rparr>) (snode S), device := Popped p,
    queue_mutex := None\<rparr>)"
proof -
  have "heap_ok (snode S) {}" using assms(1,2) by (simp add: sys_inv_def)
  from heap_ok_pop(2) [OF this assms(4)] assms(1,3) show ?thesis
    by (simp add: paired_def unanswered_def)
qed

lemma process_paired:
  assumes "device S = Popped p" "cmds (snode S) p = Some c" "sys_inv S" "paired S"
  shows "paired (S\<lparr>snode := fst (process_command env c (snode S)),
    device := Answering p c (snd (process_command env c (snode S)))\<rparr>)"
proof -
  have "answers c (snd (process_command env c (snode S)))"
    using assms(3) by (auto simp: answers_def sys_inv_def)
  with assms(1,2,4) show ?thesis by (simp add: paired_def unanswered_def)
qed

lemma free_paired:
  assumes "device S = Freeing p" "free_cmd p (cmds (snode S)) = Inr h" "sys_inv S" "paired S"
  shows "paired (S\<lparr>snode := (snode S)\<lparr>cmds := h\<rparr>, device := Looking\<rparr>)"
proof -
  have "h = (cmds (snode S))(p := None)"
    using assms(2) by (auto simp: free_cmd_def split: option.splits)
  moreover have "p \<notin> set (queue_addrs (cmd_queue (srv (snode S))))"
    using assms(1,3) by (simp add: sys_inv_def heap_ok_def)
  ultimately have "map (\<lambda>p. the (h p)) (queue_addrs (cmd_queue (srv (snode S)))) =
      map (\<lambda>p. the (cmds (snode S) p)) (queue_addrs (cmd_queue (srv (snode S))))"
    by auto
  with assms(1,4) show ?thesis by (simp add: paired_def unanswered_def del: map_eq_conv)
qed

lemma device_step_paired:
  assumes "device_step S T" "sys_inv S" "paired S"
  shows "paired T"
  using assms
proof (induction rule: device_step.induct)
  case (d_pop S p q)
  show ?case by (rule pop_paired [OF d_pop(1,5,6,4)])
next
  case (d_process S p c env n r)
  from process_paired [OF d_process(1,2,4,5), of env] d_process(3) show ?case by simp
next
  case (d_answer S p c r)
  then show ?case by (cases "comm S") (simp_all add: paired_def unanswered_def)
next
  case (d_free S p h)
  show ?case by (rule free_paired [OF d_free])
next
  case (d_silent S p c r h)
  then have "answers c r" by (simp add: paired_def)
  from answers_status [OF this] d_silent(2) show ?case ..
next
  case (d_check S)
  then show ?case by (cases "sensor_monitoring (srv (snode S))") (simp_all add: paired_def unanswered_def)
qed (simp_all add: paired_def unanswered_def)

lemma sys_step_paired:
  assumes "sys_step S e T" "e \<noteq> Lapse" "sys_inv S" "paired S"
  shows "paired T"
  using assms
proof (induction rule: sys_step.induct)
  case (by_library S n)
  with library_step_ok [OF by_library(1)] show ?case
    by (simp add: paired_def unanswered_def sys_inv_def)
next
  case (by_signal S)
  then show ?case by (simp add: paired_def unanswered_def)
qed (auto intro: comm_step_paired device_step_paired)

lemma sys_trace_paired:
  "sys_trace S es T \<Longrightarrow> Lapse \<notin> set es \<Longrightarrow> sys_inv S \<Longrightarrow> paired S \<Longrightarrow> paired T"
  by (induction rule: sys_trace.induct) (auto intro: sys_step_paired sys_trace_inv)

lemma sys_start_paired: "idle n \<Longrightarrow> paired (sys_start n)"
  by (simp add: paired_def unanswered_def sys_start_def idle_def)

section \<open>A waiting client is answered\<close>

text \<open>How many steps the device thread is away from publishing the answer to a queued command.\<close>

fun dist :: "device_pc \<Rightarrow> nat" where
  "dist (Freeing p) = 11"
| "dist Looking = 10"
| "dist Outer = 9"
| "dist Sleeping = 8"
| "dist Awake = 7"
| "dist Checking = 6"
| "dist Monitoring = 5"
| "dist Relocking = 4"
| "dist Locked = 3"
| "dist (Popped p) = 2"
| "dist (Answering p c r) = 1"
| "dist Stopped = 0"

definition client_waits :: "Command \<Rightarrow> sys \<Rightarrow> bool" where
  "client_waits c S \<longleftrightarrow>
     sys_inv S \<and> paired S \<and> comm S = Waiting c \<and> server_running (srv (snode S)) \<and> device S \<noteq> Stopped"

lemma running_monitoring [simp]:
  "server_running (srv (handle_sensor_monitoring env n)) = server_running (srv n)"
  "server_running (srv (check_monitoring env n)) = server_running (srv n)"
  by (simp_all add: check_monitoring_def handle_sensor_monitoring_def Let_def split_beta)

lemma client_waits_queue:
  assumes "client_waits c S" "in_work (cmds (snode S)) (device S) = []"
  shows "queue_addrs (cmd_queue (srv (snode S))) \<noteq> []"
  using assms by (auto simp: client_waits_def paired_def unanswered_def)

lemma device_pop_ready:
  assumes "client_waits c S" "device S = Locked"
  obtains p q where "device_step S (S\<lparr>snode := upd_srv (\<lambda>s. s\<lparr>cmd_queue := q\<rparr>) (snode S),
    device := Popped p, queue_mutex := None\<rparr>)"
proof -
  have inv: "queue_inv (cmds (snode S)) (cmd_queue (srv (snode S)))"
    using assms(1) by (simp add: client_waits_def sys_inv_def heap_ok_def)
  have ne: "queue_addrs (cmd_queue (srv (snode S))) \<noteq> []"
    using client_waits_queue [OF assms(1)] assms(2) by simp
  then obtain p ps where "queue_addrs (cmd_queue (srv (snode S))) = p # ps"
    by (cases "queue_addrs (cmd_queue (srv (snode S)))") auto
  from queue_pop_Cons [OF inv this] obtain q where
    "queue_pop (cmd_queue (srv (snode S))) = Inr (Some p, q)" by metis
  moreover have "\<not> queue_is_empty (cmd_queue (srv (snode S)))"
    using queue_is_empty_addrs [OF inv] ne by simp
  ultimately show thesis
    using assms that d_pop [of S p q] by (simp add: client_waits_def)
qed

lemma held_live:
  assumes "sys_inv S" "held (device S) = {p}"
  obtains c where "cmds (snode S) p = Some c"
  using assms by (auto simp: sys_inv_def heap_ok_def)

text \<open>One step towards the answer, from every place the device thread can be at.\<close>

lemma device_approaches:
  assumes "client_waits c S"
  obtains T where "device_step S T" "server_running (srv (snode T))" "device T \<noteq> Stopped"
    "comm T = Notified c \<and> queue_mutex T = None \<or> comm T = Waiting c \<and> dist (device T) < dist (device S)"
proof -
  have w: "sys_inv S" "comm S = Waiting c" "server_running (srv (snode S))"
    using assms by (simp_all add: client_waits_def)
  have free: "queue_mutex S = None" if "device S \<noteq> Locked" "device S \<noteq> Checking"
    using w(1) that by (simp add: sys_inv_def lock_ok_def)
  show thesis
  proof (cases "device S")
    case Outer
    show thesis by (rule that [OF d_lock]) (use w free Outer in simp_all)
  next
    case Locked
    obtain p q where "device_step S (S\<lparr>snode := upd_srv (\<lambda>s. s\<lparr>cmd_queue := q\<rparr>) (snode S),
      device := Popped p, queue_mutex := None\<rparr>)"
      using device_pop_ready [OF assms Locked] .
    then show thesis by (rule that) (use w Locked in simp_all)
  next
    case Sleeping
    show thesis by (rule that [OF d_wake]) (use w Sleeping in simp_all)
  next
    case Awake
    show thesis by (rule that [OF d_awake]) (use w free Awake in simp_all)
  next
    case Checking
    show thesis
      by (rule that [OF d_check]) (use w Checking in \<open>cases "sensor_monitoring (srv (snode S))"; simp\<close>)+
  next
    case Monitoring
    show thesis by (rule that [OF d_monitor]) (use w Monitoring in simp_all)
  next
    case Relocking
    show thesis by (rule that [OF d_relock]) (use w free Relocking in simp_all)
  next
    case (Popped p)
    obtain d where "cmds (snode S) p = Some d" using held_live [OF w(1), of p] Popped by auto
    from d_process [OF Popped this surjective_pairing] show thesis by (rule that) (use w Popped in simp_all)
  next
    case (Answering p d r)
    then have "status r \<noteq> - 2" using assms answers_status by (auto simp: client_waits_def paired_def)
    from d_answer [OF Answering this] show thesis by (rule that) (use w free Answering in simp_all)
  next
    case (Freeing p)
    obtain d where "cmds (snode S) p = Some d" using held_live [OF w(1), of p] Freeing by auto
    then have "free_cmd p (cmds (snode S)) = Inr ((cmds (snode S))(p := None))" by (simp add: free_cmd_def)
    from d_free [OF Freeing this] show thesis by (rule that) (use w Freeing in simp_all)
  next
    case Looking
    show thesis by (rule that [OF d_look]) (use w Looking in simp_all)
  next
    case Stopped
    with assms show thesis by (simp add: client_waits_def)
  qed
qed

lemma device_steps_answer:
  assumes "client_waits c S"
  shows "\<exists>k T. k \<le> dist (device S) \<and> (device_step ^^ k) S T \<and> comm T = Notified c \<and>
     queue_mutex T = None \<and> sys_inv T \<and> paired T"
  using assms
proof (induction "dist (device S)" arbitrary: S rule: less_induct)
  case less
  obtain T where T: "device_step S T" "server_running (srv (snode T))" "device T \<noteq> Stopped"
    "comm T = Notified c \<and> queue_mutex T = None \<or> comm T = Waiting c \<and> dist (device T) < dist (device S)"
    using device_approaches [OF less.prems] .
  have inv: "sys_inv T" "paired T"
    using T(1) less.prems device_step_inv device_step_paired by (auto simp: client_waits_def)
  have pos: "1 \<le> dist (device S)" using less.prems by (cases "device S") (auto simp: client_waits_def)
  from T(4) show ?case
  proof
    assume "comm T = Notified c \<and> queue_mutex T = None"
    with T(1) inv pos show ?case by (intro exI [of _ 1] exI [of _ T]) (simp add: eq_OO)
  next
    assume w: "comm T = Waiting c \<and> dist (device T) < dist (device S)"
    with T inv have "client_waits c T" by (simp add: client_waits_def)
    from less.hyps [OF _ this] w obtain k U where "k \<le> dist (device T)" "(device_step ^^ k) T U"
      "comm U = Notified c" "queue_mutex U = None" "sys_inv U" "paired U" by blast
    moreover have "(device_step ^^ Suc k) S U" 
      using T(1) \<open>(device_step ^^ k) T U\<close>
      by (rule relpowp_Suc_I2 [of device_step S T k U])
    ultimately show ?case using w by (intro exI [of _ "Suc k"] exI [of _ U]) auto
  qed
qed

section \<open>A pass is a run of steps\<close>

text \<open>
  Steps of the device thread from the inner loop's test, with nothing in between, do what
  \<^const>\<open>device_pass\<close> says.
\<close>

abbreviation at_device :: "node \<Rightarrow> comm_pc \<Rightarrow> device_pc \<Rightarrow> sys" where
  "at_device n k d \<equiv>
     \<lparr>snode = n, queue_mutex = (if d = Locked \<or> d = Checking then Some Device_thread else None),
      comm = k, device = d\<rparr>"

lemma idle_pass_steps:
  assumes "server_running (srv n)" "queue_is_empty (cmd_queue (srv n))"
  shows "device_step\<^sup>+\<^sup>+ (at_device n k Locked) (at_device (check_monitoring env n) k Locked)"
proof -
  have "device_step (at_device n k Locked) (at_device n k Sleeping)"
    using assms d_wait [of "at_device n k Locked"] by simp
  moreover have "device_step (at_device n k Sleeping) (at_device n k Awake)"
    using d_wake [of "at_device n k Sleeping"] by simp
  moreover have "device_step (at_device n k Awake) (at_device n k Checking)"
    using d_awake [of "at_device n k Awake"] by simp
  ultimately have start: "device_step\<^sup>+\<^sup>+ (at_device n k Locked) (at_device n k Checking)"
    by (meson tranclp.r_into_trancl tranclp.trancl_into_trancl)
  show ?thesis
  proof (cases "sensor_monitoring (srv n)")
    case True
    let ?n = "handle_sensor_monitoring env n"
    have "device_step (at_device n k Checking) (at_device n k Monitoring)"
      using d_check [of "at_device n k Checking"] True by simp
    moreover have "device_step (at_device n k Monitoring) (at_device ?n k Relocking)"
      using d_monitor [of "at_device n k Monitoring" env] by simp
    moreover have "device_step (at_device ?n k Relocking) (at_device ?n k Locked)"
      using d_relock [of "at_device ?n k Relocking"] by simp
    ultimately have "device_step\<^sup>+\<^sup>+ (at_device n k Locked) (at_device ?n k Locked)"
      using start by (meson tranclp.trancl_into_trancl)
    with True show ?thesis by (simp add: check_monitoring_def)
  next
    case False
    then have "device_step (at_device n k Checking) (at_device n k Locked)"
      using d_check [of "at_device n k Checking"] by simp
    with start have "device_step\<^sup>+\<^sup>+ (at_device n k Locked) (at_device n k Locked)"
      by (meson tranclp.trancl_into_trancl)
    with False show ?thesis by (simp add: check_monitoring_def)
  qed
qed

lemma command_pass_steps:
  assumes "server_running (srv n)" "\<not> queue_is_empty (cmd_queue (srv n))"
    "queue_pop (cmd_queue (srv n)) = Inr (Some p, q)" "cmds n p = Some c"
  shows "\<exists>n'. device_pass env n = Inr n' \<and>
     device_step\<^sup>+\<^sup>+ (at_device n k Locked) (at_device n' (signal_response k) Outer)"
proof -
  define n0 where "n0 = upd_srv (\<lambda>s. s\<lparr>cmd_queue := q\<rparr>) n"
  define n1 where "n1 = fst (process_command env c n0)"
  define r where "r = snd (process_command env c n0)"
  have r: "process_command env c n0 = (n1, r)" by (simp add: n1_def r_def)
  have live: "cmds n0 p = Some c" "cmds n1 p = Some c" and st: "status r \<noteq> - 2"
    using assms(4) by (simp_all add: n0_def n1_def r_def)
  define n2 where "n2 = upd_srv (\<lambda>s. s\<lparr>response := r\<rparr>) n1"
  define n3 where "n3 = n2\<lparr>cmds := (cmds n1)(p := None)\<rparr>"
  have free: "free_cmd p (cmds n2) = Inr ((cmds n1)(p := None))"
    using live by (simp add: free_cmd_def n2_def)
  have "device_step (at_device n k Locked) (at_device n0 k (Popped p))"
    using assms d_pop [of "at_device n k Locked" p q] by (simp add: n0_def)
  moreover have "device_step (at_device n0 k (Popped p)) (at_device n1 k (Answering p c r))"
    using live r d_process [of "at_device n0 k (Popped p)" p c env n1 r] by simp
  moreover have "device_step (at_device n1 k (Answering p c r)) (at_device n2 (signal_response k) (Freeing p))"
    using st d_answer [of "at_device n1 k (Answering p c r)" p c r] by (simp add: n2_def)
  moreover have "device_step (at_device n2 (signal_response k) (Freeing p)) (at_device n3 (signal_response k) Looking)"
    using free d_free [of "at_device n2 (signal_response k) (Freeing p)" p] by (simp add: n3_def)
  moreover have "device_step (at_device n3 (signal_response k) Looking)
      (at_device (check_monitoring env n3) (signal_response k) Outer)"
    using d_look [of "at_device n3 (signal_response k) Looking" env] by simp
  ultimately have "device_step\<^sup>+\<^sup>+ (at_device n k Locked)
      (at_device (check_monitoring env n3) (signal_response k) Outer)"
    by (meson tranclp.r_into_trancl tranclp.trancl_into_trancl)
  moreover have "device_pass env n = Inr (check_monitoring env n3)"
    using assms live r st free by (simp add: device_pass_def device_command_def free_node_cmd_def
        n0_def [symmetric] n2_def [symmetric] n3_def)
  ultimately show ?thesis by blast
qed

lemma dist_le: "dist d \<le> 11"
  by (cases d) simp_all

lemma sys_trace_device:
  assumes "(device_step ^^ k) S T" "sys_trace R es S"
  shows "sys_trace R (es @ replicate k By_device) T"
  using assms
proof (induction k arbitrary: T)
  case (Suc k)
  then obtain U where "(device_step ^^ k) S U" "device_step U T" by auto
  with Suc have "sys_trace R ((es @ replicate k By_device) @ [By_device]) T"
    by (blast intro: sys_snoc by_device)
  then show ?case by (simp add: replicate_append_same)
qed simp

text \<open>A client that has connected and submitted a command.\<close>

lemma demo_waiting:
  "\<exists>S. sys_trace (sys_start node_demo) [By_comm, By_comm, By_comm] S \<and> comm S = Waiting c \<and>
     server_running (srv (snode S))"
proof -
  let ?n = "upd_srv (\<lambda>s. s\<lparr>client_socket := 5, client_connected := True\<rparr>) node_demo"
  let ?S = "\<lparr>snode = ?n, queue_mutex = None, comm = Submitting c, device = Outer\<rparr>"
  have "comm_step (sys_start node_demo) By_comm (?S\<lparr>comm := Reading\<rparr>)"
    using c_accept [of "sys_start node_demo" 5] by (simp add: sys_start_def)
  moreover have "comm_step (?S\<lparr>comm := Reading\<rparr>) By_comm ?S"
    using c_read [of "?S\<lparr>comm := Reading\<rparr>" c] by simp
  ultimately have t: "sys_trace (sys_start node_demo) ([] @ [By_comm] @ [By_comm]) ?S"
    using sys_snoc [OF sys_snoc [OF sys_nil]] by (fastforce intro: by_comm)
  have i: "idle ?n" "cmds ?n = Map.empty" by simp_all
  from idle_push [OF i(1), of 7 c] obtain q where
    "queue_push (Some 7) c (cmds ?n) (cmd_queue (srv ?n)) = Inr (True, (cmds ?n)(7 \<mapsto> c), q)" .
  then have "queue_push (Some 7) c (cmds ?n) (cmd_queue (srv ?n)) = Inr (True, [7 \<mapsto> c], q)"
    by (simp only: i(2))
  then have "comm_step ?S By_comm
      (?S\<lparr>snode := upd_srv (\<lambda>s. s\<lparr>cmd_queue := q\<rparr>) (?n\<lparr>cmds := [7 \<mapsto> c]\<rparr>), comm := Waiting c,
        device := signal_not_empty Outer\<rparr>)"
    using c_submit [of ?S c 7 "[7 \<mapsto> c]" q] by simp
  from sys_snoc [OF t by_comm [OF this]] show ?thesis by (intro exI) auto
qed

section \<open>Properties\<close>

text \<open>
  C3. Under every interleaving of the client's thread, the device thread, the counting and
  playing threads, timeouts, spurious wake-ups and the stop signal, the server stays sound:
  every allocated command is in the queue or in the device thread's hands and never in both;
  \<^verbatim>\<open>queue_mutex\<close> is held by the device thread exactly in its critical section; an LED on
  record as on is lit, and one that is lit is on record or a brightness has been set; the
  buzzer's flag counts its playing threads; and the display's flag is not set without a thread
  that will clear it.
\<close>

theorem interleaving_safe:
  assumes "idle n" "starting (seg n) = []" "sys_trace (sys_start n) es S"
  shows "queue_inv (cmds (snode S)) (cmd_queue (srv (snode S))) \<and>
     dom (cmds (snode S)) = set (queue_addrs (cmd_queue (srv (snode S)))) \<union> held (device S) \<and>
     held (device S) \<inter> set (queue_addrs (cmd_queue (srv (snode S)))) = {} \<and>
     queue_mutex S = (if device S = Locked \<or> device S = Checking then Some Device_thread else None) \<and>
     (state_led_on (srv (snode S)) \<longrightarrow> led_lit Cathode_at_pin (leds (snode S))) \<and>
     (led_lit Cathode_at_pin (leds (snode S)) \<longrightarrow>
        state_led_on (srv (snode S)) \<or> 1 \<le> led_brightness (srv (snode S))) \<and>
     is_music_playing (buzzer (buz (snode S))) = int (length (live_players (buz (snode S)))) \<and>
     (is_counting (seg7 (seg (snode S))) \<longrightarrow> counting_threads (seg (snode S)) \<noteq> [])"
proof -
  have inv: "sys_inv S" using sys_trace_inv [OF assms(3) sys_start_inv [OF assms(1)]] .
  have "starting (seg (snode S)) = []"
    using sys_trace_starting [OF assms(3)] assms(2) by (simp add: sys_start_def)
  with inv show ?thesis
    by (auto simp: sys_inv_def heap_ok_def lock_ok_def libs_ok_def led_inv_lit buzzer_inv_def
        is_music_playing_def flag_owned_def counting_number_def)
qed

theorem interleaving_safe_witness:
  "\<exists>S. sys_trace (sys_start node_demo) [By_comm, By_comm, By_comm] S \<and> queue_mutex S \<noteq> Some Comm_thread"
proof -
  obtain S where "sys_trace (sys_start node_demo) [By_comm, By_comm, By_comm] S"
    using demo_waiting by blast
  moreover from interleaving_safe [OF node_demo_idle _ this] have "queue_mutex S \<noteq> Some Comm_thread" by auto
  ultimately show ?thesis by blast
qed

text \<open>
  C5. Unless a wait of the communication thread lapses, the response it sends is the answer of
  the handler of the very command it had submitted: no wake-up is lost, taken for another
  command's or comes too early.
\<close>

theorem reply_belongs_to_request:
  assumes "idle n" "sys_trace (sys_start n) es S" "Lapse \<notin> set es" "comm S = Replying c r"
  shows "answers c r"
  using sys_trace_paired [OF assms(2,3) sys_start_inv sys_start_paired] assms(1,4)
  by (simp add: paired_def)

theorem reply_belongs_to_request_witness:
  "\<exists>es S r. sys_trace (sys_start node_demo) es S \<and>
     comm S = Replying \<lparr>cmd_type = CMD_LED_ON, param1 = 0, param2 = 0\<rparr> r \<and>
     answers \<lparr>cmd_type = CMD_LED_ON, param1 = 0, param2 = 0\<rparr> r"
proof -
  let ?c = "\<lparr>cmd_type = CMD_LED_ON, param1 = 0, param2 = 0\<rparr>"
  obtain S where S: "sys_trace (sys_start node_demo) [By_comm, By_comm, By_comm] S" "comm S = Waiting ?c"
    "server_running (srv (snode S))" using demo_waiting by blast
  have "client_waits ?c S"
    using S sys_trace_inv [OF S(1) sys_start_inv] sys_trace_paired [OF S(1) _ sys_start_inv sys_start_paired]
    by (auto simp: client_waits_def sys_inv_def)
  then obtain k T where T: "(device_step ^^ k) S T" "comm T = Notified ?c" "queue_mutex T = None"
    using device_steps_answer by blast
  let ?es = "([By_comm, By_comm, By_comm] @ replicate k By_device) @ [By_comm]"
  have "sys_trace (sys_start node_demo) ?es (T\<lparr>comm := Replying ?c (response (srv (snode T)))\<rparr>)"
    using sys_snoc [OF sys_trace_device [OF T(1) S(1)] by_comm [OF c_answer [OF T(2,3)]]] .
  with reply_belongs_to_request [OF node_demo_idle this, of ?c "response (srv (snode T))"]
  show ?thesis by fastforce
qed

text \<open>
  C4. A waiting client is answered: as long as the server runs, the device thread is never
  blocked, and from wherever it is, at most eleven of its own steps publish the answer and wake
  the communication thread.
\<close>

theorem waiting_client_answered:
  assumes "idle n" "sys_trace (sys_start n) es S" "Lapse \<notin> set es" "comm S = Waiting c"
    and "server_running (srv (snode S))"
  shows "\<exists>k T. k \<le> 11 \<and> (device_step ^^ k) S T \<and> comm T = Notified c \<and> answers c (response (srv (snode T)))"
proof -
  have inv: "sys_inv S" "paired S"
    using sys_trace_inv [OF assms(2) sys_start_inv [OF assms(1)]]
      sys_trace_paired [OF assms(2,3) sys_start_inv sys_start_paired] assms(1) by simp_all
  with assms have "client_waits c S" by (auto simp: client_waits_def sys_inv_def)
  from device_steps_answer [OF this] obtain k T where
    T: "k \<le> dist (device S)" "(device_step ^^ k) S T" "comm T = Notified c" "paired T" by blast
  from T(1) dist_le [of "device S"] have "k \<le> 11" by linarith
  with T show ?thesis by (auto simp: paired_def)
qed

theorem waiting_client_answered_witness:
  "\<exists>S k T. sys_trace (sys_start node_demo) [By_comm, By_comm, By_comm] S \<and> k \<le> 11 \<and>
     (device_step ^^ k) S T \<and> comm T = Notified \<lparr>cmd_type = CMD_LED_ON, param1 = 0, param2 = 0\<rparr>"
proof -
  let ?c = "\<lparr>cmd_type = CMD_LED_ON, param1 = 0, param2 = 0\<rparr>"
  obtain S where S: "sys_trace (sys_start node_demo) [By_comm, By_comm, By_comm] S" "comm S = Waiting ?c"
    "server_running (srv (snode S))" using demo_waiting by blast
  with waiting_client_answered [OF node_demo_idle S(1) _ S(2,3)] show ?thesis by auto
qed

text \<open>
  The pass of the device thread that the other theories work with is what the thread's
  fine-grained steps do when no other thread comes in between: from the test of the inner loop,
  with the mutex held, they lead to the state that the pass computes, at the inner loop's test
  again when the queue was empty, and otherwise at the outer loop's with the communication
  thread signalled.
\<close>

lemma pass_is_steps:
  assumes "sys_inv S" "device S = Locked" "server_running (srv (snode S))"
  shows "\<exists>n' T. device_pass env (snode S) = Inr n' \<and> device_step\<^sup>+\<^sup>+ S T \<and> snode T = n' \<and>
     (if queue_is_empty (cmd_queue (srv (snode S))) then device T = Locked \<and> comm T = comm S
      else device T = Outer \<and> comm T = signal_response (comm S))"
proof -
  let ?n = "snode S" and ?q = "cmd_queue (srv (snode S))"
  have S: "S = at_device ?n (comm S) Locked" using assms(1,2) by (cases S) (simp add: sys_inv_def lock_ok_def)
  have inv: "queue_inv (cmds ?n) ?q" using assms(1) by (simp add: sys_inv_def heap_ok_def)
  show ?thesis
  proof (cases "queue_is_empty ?q")
    case True
    with idle_pass_steps [OF assms(3) True, of "comm S" env] S assms(3) show ?thesis
      by (intro exI conjI) (auto simp: device_pass_def)
  next
    case False
    then obtain p ps where ps: "queue_addrs ?q = p # ps"
      using queue_is_empty_addrs [OF inv] by (cases "queue_addrs ?q") auto
    from queue_pop_Cons [OF inv ps] obtain q where pop: "queue_pop ?q = Inr (Some p, q)" by metis
    obtain c where "cmds ?n p = Some c" using queue_inv_live [OF inv, of p] ps by auto
    from command_pass_steps [OF assms(3) False pop this, of env "comm S"] S False show ?thesis by fastforce
  qed
qed

text \<open>
  C36. A countdown that has reached zero but whose callback is still to run can be stopped, and
  a new one started. The late callback then clears the server's record although the new
  countdown runs: the server refuses to stop it and refuses to start another.
\<close>

theorem late_callback_hides_countdown:
  assumes "j < length (counters (seg n))" "thread_pc (counters (seg n) ! j) = Notify" "g_state_set n"
    and "segment_counting (srv n)" "\<not> is_counting (seg7 (seg n))" "seg7_is_initialized (seg7 (seg n))"
    and "malloc_ok env" "thread_ok env" "1 \<le> param1 c" "param1 c \<le> 9"
  shows "let n1 = fst (process_segment_stop n r); n2 = fst (process_segment_display env n1 c r);
       n3 = countdown_complete_callback env' (count_tick j Ended (seg7 (seg n2)) n2)
     in library_step n2 n3 \<and> is_counting (seg7 (seg n3)) \<and>
        status (snd (process_segment_stop n3 r)) = - 1 \<and>
        status (snd (process_segment_display env n3 c r)) = - 1"
proof -
  define n1 where "n1 = fst (process_segment_stop n r)"
  define n2 where "n2 = fst (process_segment_display env n1 c r)"
  define n3 where "n3 = countdown_complete_callback env' (count_tick j Ended (seg7 (seg n2)) n2)"
  have n1: "n1 = upd_srv (\<lambda>s. s\<lparr>segment_counting := False\<rparr>) n"
    using assms(4,5) by (simp add: n1_def process_segment_stop_def seg7_stop_counting_def)
  have "status (snd (process_segment_display env n1 c r)) = 0"
    using assms n1 by (simp add: process_segment_display_def node_count_status ok_response_def split_beta Let_def)
  note st = countdown_starts(4) [OF this, folded n2_def]
  have n2: "counters (seg n2) = counters (seg n) @ [counting_thread_start \<lparr>start_seconds = param1 c, callback = True\<rparr>]"
    "is_counting (seg7 (seg n2))" "g_state_set n2"
    using assms(3) by (simp_all add: st n1)
  have "library_step n2 n3"
    unfolding n3_def by (rule l_callback) (use assms(1,2) n2(1) in \<open>simp_all add: nth_append\<close>)
  moreover have n3: "is_counting (seg7 (seg n3))" "\<not> segment_counting (srv n3)"
    using n2 by (simp_all add: n3_def countdown_complete_callback_def count_tick_def)
  moreover have "status (snd (process_segment_stop n3 r)) = - 1"
    using n3 by (simp add: process_segment_stop_def error_response_def)
  moreover have "status (snd (process_segment_display env n3 c r)) = - 1"
    using n3 assms(9,10)
    by (simp add: process_segment_display_def error_response_def node_count_status split_beta Let_def)
  ultimately show ?thesis by (simp add: n1_def [symmetric] n2_def [symmetric] n3_def [symmetric] Let_def)
qed

theorem late_callback_hides_countdown_witness:
  "\<exists>n. is_counting (seg7 (seg n)) \<and> status (snd (process_segment_stop n no_response)) = - 1"
proof -
  let ?n = "upd_srv (\<lambda>s. s\<lparr>segment_counting := True\<rparr>)
    (node_demo\<lparr>seg := (seg node_demo)\<lparr>counters := [\<lparr>thread_pc = Notify, thread_callback = True\<rparr>]\<rparr>\<rparr>)"
  show ?thesis
    using late_callback_hides_countdown [of 0 ?n env_demo
        "\<lparr>cmd_type = CMD_SEGMENT_DISPLAY, param1 = 9, param2 = 0\<rparr>" no_response env_demo]
    by (auto simp: env_demo_def Let_def)
qed

end
