(* ===== verification/Server.thy ===== *)
theory Server
  imports Communication
begin

text \<open>
  Start-up and shutdown, \<^verbatim>\<open>server_src/server.c\<close>: finding the address, starting and stopping
  the web server process, \<^verbatim>\<open>server_init\<close> with its error paths and \<^verbatim>\<open>server_cleanup\<close>. The
  process keeps the set of the handles it holds (mutexes, condition variables, descriptors,
  joinable threads); destroying, closing or joining one that is not held is a fault. What the
  system calls return is an argument.
\<close>

section \<open>Handles\<close>

datatype handle =
    QueueMutex
  | StateMutex
  | QueueNotEmpty
  | ResponseReady
  | Descriptor c_int
  | DeviceThread
  | CommThread

datatype web_call = ExecWeb "string list" | KillTerm c_int | KillKill c_int | WaitBlocking c_int

record process =
  pnode :: node
  live :: "handle set"
  web_calls :: "web_call list"
  pid_file :: "string option"

definition acquire :: "handle \<Rightarrow> process \<Rightarrow> process" where
  "acquire h p = p\<lparr>live := insert h (live p)\<rparr>"

definition release :: "handle \<Rightarrow> process \<Rightarrow> process checked" where
  "release h p = (if h \<in> live p then Inr (p\<lparr>live := live p - {h}\<rparr>) else Inl BadHandle)"

fun release_all :: "handle list \<Rightarrow> process \<Rightarrow> process checked" where
  "release_all [] p = Inr p"
| "release_all (h # hs) p = checked_bind (release h p) (release_all hs)"

definition upd_node :: "(node \<Rightarrow> node) \<Rightarrow> process \<Rightarrow> process" where
  "upd_node f p = p\<lparr>pnode := f (pnode p)\<rparr>"

section \<open>The address\<close>

text \<open>
  An entry of \<^verbatim>\<open>getifaddrs\<close>: its name and, unless the address is missing, whether the
  address is an IPv4 address and its text.
\<close>

record iface =
  ifa_name :: string
  ifa_addr :: "(bool \<times> string) option"

definition usable :: "nat \<Rightarrow> iface \<Rightarrow> bool" where
  "usable buffer_size i =
     (case ifa_addr i of
        None \<Rightarrow> False
      | Some (inet, ip) \<Rightarrow> inet \<and> ifa_name i \<noteq> ''lo'' \<and> length ip < buffer_size)"

text \<open>\<open>None\<close> is the failure of \<^verbatim>\<open>getifaddrs\<close>, which leaves the buffer alone.\<close>

definition get_server_ip :: "nat \<Rightarrow> iface list option \<Rightarrow> c_int \<times> string option" where
  "get_server_ip buffer_size ifs =
     (case ifs of
        None \<Rightarrow> (- 1, None)
      | Some ifas \<Rightarrow>
          (0, Some (take (buffer_size - 1)
                (case find (usable buffer_size) ifas of
                   Some i \<Rightarrow> snd (the (ifa_addr i))
                 | None \<Rightarrow> ''127.0.0.1''))))"

section \<open>The web server process\<close>

text \<open>What the child process executes.\<close>

definition web_server_argv :: "c_int \<Rightarrow> string list" where
  "web_server_argv port =
     [''python3'', ''./web_server/web_server.py'', snprintf_trunc 16 (fmt_d port)]"

text \<open>
  \<^verbatim>\<open>fork\<close> fails, or there are two processes afterwards: the parent, which gets the child's
  process number, and the child. The result is what the parent returns, given what \<^verbatim>\<open>waitpid\<close>
  with \<^verbatim>\<open>WNOHANG\<close> returned to it, and what the child executes.
\<close>

datatype fork_result = Fork_failed | Forked c_int

definition start_web_server :: "c_int \<Rightarrow> fork_result \<Rightarrow> c_int \<Rightarrow> c_int \<times> string list option" where
  "start_web_server port f wait_ret =
     (case f of
        Fork_failed \<Rightarrow> (- 1, None)
      | Forked pid \<Rightarrow> (if wait_ret = pid then - 1 else pid, Some (web_server_argv port)))"

text \<open>The loop that polls for the end of the child: the poll that saw it, if any.\<close>

function web_wait :: "(nat \<Rightarrow> c_int) \<Rightarrow> c_int \<Rightarrow> nat \<Rightarrow> nat option" where
  "web_wait polls pid n =
     (if n < 50 then (if polls n = pid then Some n else web_wait polls pid (Suc n)) else None)"
  by auto
termination
  by (relation "measure (\<lambda>(polls, pid, n). 50 - n)") auto

declare web_wait.simps [simp del]

text \<open>\<open>polls k\<close> is what the \<open>k\<close>-th \<^verbatim>\<open>waitpid\<close> returns; the result is the calls made.\<close>

record web_env =
  kill_ret :: c_int
  polls :: "nat \<Rightarrow> c_int"

definition stop_web_server :: "web_env \<Rightarrow> c_int \<Rightarrow> web_call list" where
  "stop_web_server e pid =
     (if pid \<le> 0 then []
      else KillTerm pid #
        (if kill_ret e = 0 then
           (case web_wait (polls e) pid 0 of
              Some _ \<Rightarrow> []
            | None \<Rightarrow> [KillKill pid, WaitBlocking pid])
         else []))"

section \<open>Initialising\<close>

record init_env =
  wiringPiSetupGpio_ret :: c_int
  getifaddrs_ret :: "iface list option"
  queue_mutex_ret :: c_int
  state_mutex_ret :: c_int
  queue_not_empty_ret :: c_int
  response_ready_ret :: c_int
  device_env :: os_env
  listen_fd :: c_int
  setsockopt_ret :: c_int
  getfl_ret :: c_int
  setfl_ret :: c_int
  bind_ret :: c_int
  listen_ret :: c_int

text \<open>The state after \<^verbatim>\<open>memset(state, 0, sizeof(ServerState))\<close>.\<close>

definition zero_state :: ServerState where
  "zero_state =
     \<lparr>cmd_queue = \<lparr>commands = replicate (nat MAX_QUEUE_SIZE) None, front = 0, rear = 0, count = 0\<rparr>,
      state_led_on = False, led_brightness = 0, buzzer_playing = False, sensor_monitoring = False,
      segment_counting = False, response = no_response, server_running = False, server_socket = 0,
      client_socket = 0, client_connected = False, web_server_pid = 0, server_ip = []\<rparr>"

definition led_pin_no :: c_int where "led_pin_no = 12"
definition sensor_pin_no :: c_int where "sensor_pin_no = 11"
definition seg7_pins :: Seg7Pins where
  "seg7_pins = \<lparr>pin_a = 14, pin_b = 15, pin_c = 18, pin_d = 23\<rparr>"
definition buzzer_pin :: c_int where "buzzer_pin = 21"

text \<open>The library calls, on the node; their results are the status and the node.\<close>

definition node_seg7_init :: "node \<Rightarrow> c_int \<times> node" where
  "node_seg7_init n =
     (let (r, s) = seg7_init (Some seg7_pins) (seg7 (seg n)) in (r, n\<lparr>seg := (seg n)\<lparr>seg7 := s\<rparr>\<rparr>))"

definition node_music_init :: "os_env \<Rightarrow> node \<Rightarrow> c_int \<times> node" where
  "node_music_init env n =
     (let (r, b) = music_init env buzzer_pin (buzzer (buz n))
      in (r, n\<lparr>buz := (buz n)\<lparr>buzzer := b\<rparr>\<rparr>))"

definition node_led_init :: "node \<Rightarrow> c_int \<times> node" where
  "node_led_init n =
     (let (r, l) = led_init (Some \<lparr>led_pin = led_pin_no\<rparr>) (leds n) in (r, n\<lparr>leds := l\<rparr>))"

definition node_sensor_init :: "node \<Rightarrow> c_int \<times> node" where
  "node_sensor_init n =
     (let (r, s) = light_sensor_init (Some \<lparr>sensor_pin = sensor_pin_no\<rparr>) (sensor n)
      in (r, n\<lparr>sensor := s\<rparr>))"

definition node_seg7_cleanup :: "node \<Rightarrow> node" where
  "node_seg7_cleanup n = n\<lparr>seg := (seg n)\<lparr>seg7 := seg7_cleanup (seg7 (seg n))\<rparr>\<rparr>"

text \<open>\<^verbatim>\<open>music_cleanup\<close> may join the playing thread; joining one that is detached is a fault.\<close>

definition node_music_cleanup :: "(buzzer_lib \<Rightarrow> buzzer_lib) \<Rightarrow> node \<Rightarrow> node checked" where
  "node_music_cleanup between n =
     (let (joined, b) = music_cleanup between (buzzer (buz n))
      in if joined = None \<or> joined = Some Joinable then Inr (n\<lparr>buz := (buz n)\<lparr>buzzer := b\<rparr>\<rparr>)
         else Inl BadHandle)"

definition node_led_cleanup :: "node \<Rightarrow> node" where
  "node_led_cleanup n = n\<lparr>leds := led_cleanup (leds n)\<rparr>"

definition node_sensor_cleanup :: "node \<Rightarrow> node" where
  "node_sensor_cleanup n = n\<lparr>sensor := light_sensor_cleanup (sensor n)\<rparr>"

text \<open>The code after the label \<^verbatim>\<open>cleanup_devices\<close>, up to the next label.\<close>

definition cleanup_devices :: "(buzzer_lib \<Rightarrow> buzzer_lib) \<Rightarrow> node \<Rightarrow> node checked" where
  "cleanup_devices between n =
     checked_bind (node_music_cleanup between (node_led_cleanup (node_sensor_cleanup n))) (\<lambda>n'.
       Inr (node_seg7_cleanup n'))"

definition sync_handles :: "handle list" where
  "sync_handles = [ResponseReady, QueueNotEmpty, StateMutex, QueueMutex]"

text \<open>
  The three stages of \<^verbatim>\<open>server_init\<close>. A stage returns whether to go on; when it does not, it
  has done its own part of the cleaning up.
\<close>

definition init_sync :: "init_env \<Rightarrow> process \<Rightarrow> (bool \<times> process) checked" where
  "init_sync e p =
     (if queue_mutex_ret e \<noteq> 0 then Inr (False, p)
      else let p1 = acquire QueueMutex p in
        if state_mutex_ret e \<noteq> 0 then
          checked_bind (release_all [QueueMutex] p1) (\<lambda>p'. Inr (False, p'))
        else let p2 = acquire StateMutex p1 in
          if queue_not_empty_ret e \<noteq> 0 then
            checked_bind (release_all [QueueMutex, StateMutex] p2) (\<lambda>p'. Inr (False, p'))
          else let p3 = acquire QueueNotEmpty p2 in
            if response_ready_ret e \<noteq> 0 then
              checked_bind (release_all [QueueNotEmpty, QueueMutex, StateMutex] p3) (\<lambda>p'. Inr (False, p'))
            else Inr (True, acquire ResponseReady p3))"

definition init_devices :: "os_env \<Rightarrow> node \<Rightarrow> (bool \<times> node) checked" where
  "init_devices env n =
     (let (r1, n1) = node_seg7_init n in
      if r1 \<noteq> 0 then Inr (False, n1)
      else let (r2, n2) = node_music_init env n1 in
        if r2 \<noteq> 0 then Inr (False, node_seg7_cleanup n2)
        else let (r3, n3) = node_led_init n2 in
          if r3 \<noteq> 0 then
            checked_bind (node_music_cleanup id n3) (\<lambda>n'. Inr (False, node_seg7_cleanup n'))
          else let (r4, n4) = node_sensor_init n3 in
            if r4 \<noteq> 0 then
              checked_bind (node_music_cleanup id (node_led_cleanup n4)) (\<lambda>n'.
                Inr (False, node_seg7_cleanup n'))
            else Inr (True, n4))"

definition init_socket :: "init_env \<Rightarrow> process \<Rightarrow> (bool \<times> process) checked" where
  "init_socket e p =
     (let fd = listen_fd e;
          p1 = upd_node (upd_srv (\<lambda>s. s\<lparr>server_socket := fd\<rparr>)) p
      in if fd < 0 then Inr (False, p1)
         else let p2 = acquire (Descriptor fd) p1 in
           if setsockopt_ret e < 0 then checked_bind (release (Descriptor fd) p2) (\<lambda>p'. Inr (False, p'))
           else if getfl_ret e < 0 then checked_bind (release (Descriptor fd) p2) (\<lambda>p'. Inr (False, p'))
           else if setfl_ret e < 0 then checked_bind (release (Descriptor fd) p2) (\<lambda>p'. Inr (False, p'))
           else if bind_ret e < 0 then checked_bind (release (Descriptor fd) p2) (\<lambda>p'. Inr (False, p'))
           else if listen_ret e < 0 then checked_bind (release (Descriptor fd) p2) (\<lambda>p'. Inr (False, p'))
           else Inr (True, p2))"

text \<open>\<^verbatim>\<open>server_init\<close> once the synchronisation objects are there.\<close>

definition init_service :: "init_env \<Rightarrow> process \<Rightarrow> (c_int \<times> process) checked" where
  "init_service e p =
     checked_bind (init_devices (device_env e) (pnode p)) (\<lambda>(ok2, n3).
       let p3 = p\<lparr>pnode := n3\<rparr>
       in if \<not> ok2 then checked_bind (release_all sync_handles p3) (\<lambda>p'. Inr (- 1, p'))
          else checked_bind (init_socket e p3) (\<lambda>(ok3, p4).
            if \<not> ok3 then
              checked_bind (cleanup_devices id (pnode p4)) (\<lambda>n5.
                checked_bind (release_all sync_handles (p4\<lparr>pnode := n5\<rparr>)) (\<lambda>p'. Inr (- 1, p')))
            else Inr (0, upd_node (upd_srv (\<lambda>s. s\<lparr>server_running := True, client_socket := - 1,
                          client_connected := False, web_server_pid := - 1\<rparr>)) p4)))"

definition server_init :: "init_env \<Rightarrow> process \<Rightarrow> (c_int \<times> process) checked" where
  "server_init e p =
     (let p0 = upd_node (upd_srv (\<lambda>_. zero_state)) p in
      if wiringPiSetupGpio_ret e = - 1 then Inr (- 1, p0)
      else
        let ip = (case get_server_ip 64 (getifaddrs_ret e) of
                    (r, b) \<Rightarrow> if r = 0 then the b else ''localhost'');
            p1 = upd_node (upd_srv (\<lambda>s. s\<lparr>server_ip := ip, cmd_queue := queue_init (cmd_queue s)\<rparr>)) p0
        in checked_bind (init_sync e p1) (\<lambda>(ok1, p2).
             if \<not> ok1 then Inr (- 1, p2) else init_service e p2))"

section \<open>Cleaning up\<close>

text \<open>
  \<^verbatim>\<open>server_cleanup\<close>; \<open>joining\<close> is what the other threads do while it waits for them and for
  the web server, and \<open>between\<close> what a playing thread does while \<^verbatim>\<open>music_cleanup\<close> runs. The
  outer \<open>None\<close> is a queue clean-up that does not end.
\<close>

definition server_cleanup ::
  "web_env \<Rightarrow> activity list \<Rightarrow> (buzzer_lib \<Rightarrow> buzzer_lib) \<Rightarrow> process \<Rightarrow> process checked option" where
  "server_cleanup w joining between p =
     (let p0 = upd_node (upd_srv (\<lambda>s. s\<lparr>server_running := False\<rparr>)) p;
          joins = (if client_connected (srv (pnode p0)) then [CommThread] else []) @ [DeviceThread]
      in case checked_bind (activities joining (pnode p0)) (\<lambda>n. release_all joins (p0\<lparr>pnode := n\<rparr>)) of
           Inl e \<Rightarrow> Some (Inl e)
         | Inr p2 \<Rightarrow>
             let s = srv (pnode p2);
                 p3 = (if web_server_pid s > 0
                       then p2\<lparr>web_calls := web_calls p2 @ stop_web_server w (web_server_pid s)\<rparr>
                       else p2);
                 closes = (if client_socket s \<ge> 0 then [Descriptor (client_socket s)] else []) @
                          (if server_socket s \<ge> 0 then [Descriptor (server_socket s)] else [])
             in case release_all closes p3 of
                  Inl e \<Rightarrow> Some (Inl e)
                | Inr p4 \<Rightarrow>
                    map_option (\<lambda>res.
                        checked_bind res (\<lambda>(h, q).
                        checked_bind (cleanup_devices between
                            (upd_srv (\<lambda>s. s\<lparr>cmd_queue := q\<rparr>) ((pnode p4)\<lparr>cmds := h\<rparr>))) (\<lambda>n'.
                        release_all sync_handles (p4\<lparr>pnode := n'\<rparr>))))
                      (queue_cleanup (cmds (pnode p4)) (cmd_queue (srv (pnode p4)))))"

section \<open>Initialisation is all or nothing\<close>

definition devices_ready :: "node \<Rightarrow> bool" where
  "devices_ready n \<longleftrightarrow>
     led_is_initialized (leds n) \<and> sensor_is_initialized (sensor n) \<and>
     seg7_is_initialized (seg7 (seg n)) \<and> initialized (buzzer (buz n))"

definition devices_off :: "node \<Rightarrow> bool" where
  "devices_off n \<longleftrightarrow>
     \<not> led_is_initialized (leds n) \<and> \<not> sensor_is_initialized (sensor n) \<and>
     \<not> seg7_is_initialized (seg7 (seg n)) \<and> \<not> initialized (buzzer (buz n))"

text \<open>The libraries' invariants, and no melody under way.\<close>

definition devices_calm :: "node \<Rightarrow> bool" where
  "devices_calm n \<longleftrightarrow>
     led_inv (leds n) \<and> buzzer_inv (buz n) \<and> flag_owned (seg n) \<and> \<not> is_playing (buzzer (buz n))"

text \<open>A process before \<^verbatim>\<open>server_init\<close>.\<close>

definition loaded :: "process \<Rightarrow> bool" where
  "loaded p \<longleftrightarrow>
     live p = {} \<and> devices_off (pnode p) \<and> devices_calm (pnode p) \<and> cmds (pnode p) = Map.empty"

text \<open>The answers of the system under which initialisation succeeds.\<close>

definition sync_granted :: "init_env \<Rightarrow> bool" where
  "sync_granted e \<longleftrightarrow>
     queue_mutex_ret e = 0 \<and> state_mutex_ret e = 0 \<and> queue_not_empty_ret e = 0 \<and>
     response_ready_ret e = 0"

definition socket_granted :: "init_env \<Rightarrow> bool" where
  "socket_granted e \<longleftrightarrow>
     0 \<le> listen_fd e \<and> 0 \<le> setsockopt_ret e \<and> 0 \<le> getfl_ret e \<and> 0 \<le> setfl_ret e \<and>
     0 \<le> bind_ret e \<and> 0 \<le> listen_ret e"

definition service_granted :: "init_env \<Rightarrow> bool" where
  "service_granted e \<longleftrightarrow> tone_create_ret (device_env e) = 0 \<and> socket_granted e"

definition init_granted :: "init_env \<Rightarrow> bool" where
  "init_granted e \<longleftrightarrow>
     wiringPiSetupGpio_ret e \<noteq> - 1 \<and> sync_granted e \<and> service_granted e"

lemma upd_node_simps [simp]:
  "pnode (upd_node f p) = f (pnode p)" "live (upd_node f p) = live p"
  "web_calls (upd_node f p) = web_calls p" "pid_file (upd_node f p) = pid_file p"
  by (simp_all add: upd_node_def)

lemma acquire_simps [simp]:
  "pnode (acquire h p) = pnode p" "live (acquire h p) = insert h (live p)"
  "web_calls (acquire h p) = web_calls p" "pid_file (acquire h p) = pid_file p"
  by (simp_all add: acquire_def)

lemma release_all_live:
  "distinct hs \<Longrightarrow> set hs \<subseteq> live p \<Longrightarrow> release_all hs p = Inr (p\<lparr>live := live p - set hs\<rparr>)"
proof (induction hs arbitrary: p)
  case (Cons h hs)
  then have "set hs \<subseteq> live (p\<lparr>live := live p - {h}\<rparr>)" by auto
  with Cons show ?case by (simp add: release_def Diff_insert2 [symmetric])
qed simp

lemma release_live: "h \<in> live p \<Longrightarrow> release h p = Inr (p\<lparr>live := live p - {h}\<rparr>)"
  by (simp add: release_def)

lemma init_sync_result:
  assumes "live p = {}"
  shows "\<exists>p'. init_sync e p = Inr (sync_granted e, p') \<and> pnode p' = pnode p \<and>
     web_calls p' = web_calls p \<and> pid_file p' = pid_file p \<and> live p' = (if sync_granted e then set sync_handles else {})"
  using assms
  by (auto simp: init_sync_def sync_granted_def sync_handles_def release_def Let_def)

lemma music_cleanup_calm:
  assumes "devices_calm n"
  shows "\<exists>n'. node_music_cleanup id n = Inr n' \<and> devices_calm n' \<and> srv n' = srv n \<and>
     cmds n' = cmds n \<and> leds n' = leds n \<and> sensor n' = sensor n \<and> seg n' = seg n \<and>
     \<not> initialized (buzzer (buz n'))"
  using assms
  by (auto simp: node_music_cleanup_def music_cleanup_def devices_calm_def stop_music_def Let_def
      buzzer_inv_def)

lemma seg7_cleanup_owned: "flag_owned S \<Longrightarrow> flag_owned (S\<lparr>seg7 := seg7_cleanup (seg7 S)\<rparr>)"
  by (rule seg7_step_flag_owned [OF seg7_step.do_cleanup])

lemma seg7_init_owned: "flag_owned S \<Longrightarrow> flag_owned (S\<lparr>seg7 := snd (seg7_init p (seg7 S))\<rparr>)"
  by (rule seg7_step_flag_owned [OF seg7_step.do_init])

lemma music_init_inv:
  "buzzer_inv S \<Longrightarrow> buzzer_inv (S\<lparr>buzzer := snd (music_init env pin (buzzer S))\<rparr>)"
  by (rule buzzer_step_inv [OF buzzer_step.do_music_init])

lemma music_init_status:
  "\<not> initialized b \<Longrightarrow> 0 \<le> pin \<Longrightarrow>
     fst (music_init env pin b) = (if tone_create_ret env = 0 then 0 else - 1) \<and>
     initialized (snd (music_init env pin b)) = (tone_create_ret env = 0)"
  by (simp add: music_init_def Let_def)

lemma cleanup_devices_calm:
  assumes "devices_calm n"
  shows "\<exists>n'. cleanup_devices id n = Inr n' \<and> devices_off n' \<and> devices_calm n' \<and> srv n' = srv n \<and>
     cmds n' = cmds n"
proof -
  let ?m = "node_led_cleanup (node_sensor_cleanup n)"
  have "devices_calm ?m"
    using assms by (simp add: devices_calm_def node_led_cleanup_def node_sensor_cleanup_def led_inv_cleanup)
  with music_cleanup_calm [of ?m] obtain n' where n': "node_music_cleanup id ?m = Inr n'"
    "devices_calm n'" "srv n' = srv n" "cmds n' = cmds n" "leds n' = led_cleanup (leds n)"
    "sensor n' = light_sensor_cleanup (sensor n)" "\<not> initialized (buzzer (buz n'))"
    by (auto simp: node_led_cleanup_def node_sensor_cleanup_def)
  then show ?thesis
    using led_dev.cleanup_ready sensor_dev.cleanup_ready seg7_dev.cleanup_ready
    by (auto simp: cleanup_devices_def devices_off_def devices_calm_def node_seg7_cleanup_def
        seg7_cleanup_owned)
qed

lemma init_devices_result:
  assumes "devices_off n" "devices_calm n"
  shows "\<exists>n'. init_devices env n = Inr (tone_create_ret env = 0, n') \<and> srv n' = srv n \<and>
     cmds n' = cmds n \<and> devices_calm n' \<and> \<not> led_state (leds n') \<and>
     (if tone_create_ret env = 0 then devices_ready n' else devices_off n')"
proof -
  obtain n1 where n1: "node_seg7_init n = (0, n1)" "srv n1 = srv n" "cmds n1 = cmds n" "leds n1 = leds n"
    "sensor n1 = sensor n" "buz n1 = buz n" "seg7_is_initialized (seg7 (seg n1))" "flag_owned (seg n1)"
    using assms seg7_init_owned [of "seg n" "Some seg7_pins"]
    by (auto simp: node_seg7_init_def devices_off_def devices_calm_def seg7_init_def Let_def)
  obtain r n2 where n2: "node_music_init env n1 = (r, n2)" by (metis surj_pair)
  then have n2': "srv n2 = srv n" "cmds n2 = cmds n" "leds n2 = leds n" "sensor n2 = sensor n"
    "seg n2 = seg n1" "buzzer_inv (buz n2)" "\<not> is_playing (buzzer (buz n2))"
    "r = 0 \<longleftrightarrow> tone_create_ret env = 0" "initialized (buzzer (buz n2)) \<longleftrightarrow> tone_create_ret env = 0"
    using n1 assms music_init_inv [of "buz n1" env buzzer_pin]
      music_init_status [of "buzzer (buz n)" buzzer_pin env]
    by (auto simp: node_music_init_def split_beta devices_off_def devices_calm_def buzzer_pin_def)
  show ?thesis
    using assms n1 n2 n2' led_inv_init [of "leds n" "Some \<lparr>led_pin = led_pin_no\<rparr>"]
      seg7_cleanup_owned [of "seg n1"] seg7_dev.cleanup_ready [of "seg7 (seg n1)"]
    by (auto simp: init_devices_def node_led_init_def node_sensor_init_def node_seg7_cleanup_def
        devices_off_def devices_calm_def devices_ready_def led_init_def light_sensor_init_def
        led_pin_no_def sensor_pin_no_def led_inv_def Let_def)
qed

text \<open>
  A server between two clients: sound, with no client, and the handles held are the
  synchronisation objects, the listening socket and the \<open>threads\<close>.
\<close>

definition resting :: "handle set \<Rightarrow> process \<Rightarrow> bool" where
  "resting threads p \<longleftrightarrow>
     sound (pnode p) \<and>
     \<not> client_connected (srv (pnode p)) \<and> client_socket (srv (pnode p)) = - 1 \<and>
     0 \<le> server_socket (srv (pnode p)) \<and> length (server_ip (srv (pnode p))) < 64 \<and>
     live p = set sync_handles \<union> {Descriptor (server_socket (srv (pnode p)))} \<union> threads"

lemma server_ip_fits:
  assumes "get_server_ip 64 ifs = (r, b)"
  shows "length (if r = 0 then the b else ''localhost'') < 64"
  using assms by (auto simp: get_server_ip_def split: option.splits)

lemma init_socket_result:
  assumes "\<forall>fd. Descriptor fd \<notin> live p"
  shows "\<exists>p'. init_socket e p = Inr (socket_granted e, p') \<and>
     pnode p' = upd_srv (\<lambda>s. s\<lparr>server_socket := listen_fd e\<rparr>) (pnode p) \<and>
     web_calls p' = web_calls p \<and> pid_file p' = pid_file p \<and> live p' = (if socket_granted e then insert (Descriptor (listen_fd e)) (live p) else live p)"
  using assms by (auto simp: init_socket_def socket_granted_def release_def Let_def)

lemma devices_cong [simp]:
  "devices_off (upd_srv f n) = devices_off n" "devices_calm (upd_srv f n) = devices_calm n"
  "devices_ready (upd_srv f n) = devices_ready n"
  by (simp_all add: devices_off_def devices_calm_def devices_ready_def)

lemma idle_start:
  assumes "devices_calm n" "devices_ready n" "cmds n = Map.empty" "queue_addrs (cmd_queue (srv n)) = []"
    and "queue_inv Map.empty (cmd_queue (srv n))" "\<not> state_led_on (srv n)" "led_brightness (srv n) = 0"
    and "\<not> led_state (leds n)"
  shows "idle n"
  using assms by (simp add: idle_def queue_ok_def queue_owns_def libs_ok_def devices_calm_def devices_ready_def)

text \<open>The server state that the stages find: no record of a device in use.\<close>

definition blank :: "ServerState \<Rightarrow> bool" where
  "blank s \<longleftrightarrow>
     queue_addrs (cmd_queue s) = [] \<and> queue_inv Map.empty (cmd_queue s) \<and> \<not> state_led_on s \<and>
     led_brightness s = 0 \<and> length (server_ip s) < 64"

lemma init_service_result:
  assumes "live p = set sync_handles" "devices_off (pnode p)" "devices_calm (pnode p)"
    and "cmds (pnode p) = Map.empty" "blank (srv (pnode p))"
  shows "\<exists>p'. init_service e p = Inr (if service_granted e then 0 else - 1, p') \<and>
     web_calls p' = web_calls p \<and> pid_file p' = pid_file p \<and>
     (if service_granted e
      then resting {} p' \<and> idle (pnode p') \<and> devices_ready (pnode p') \<and> server_running (srv (pnode p')) \<and>
        server_socket (srv (pnode p')) = listen_fd e
      else live p' = {} \<and> devices_off (pnode p'))"
proof -
  obtain n3 where n3: "init_devices (device_env e) (pnode p) = Inr (tone_create_ret (device_env e) = 0, n3)"
    "srv n3 = srv (pnode p)" "cmds n3 = Map.empty" "devices_calm n3" "\<not> led_state (leds n3)"
    "if tone_create_ret (device_env e) = 0 then devices_ready n3 else devices_off n3"
    using init_devices_result [of "pnode p" "device_env e"] assms by auto
  have sync: "distinct sync_handles" and "\<forall>fd. Descriptor fd \<notin> live (p\<lparr>pnode := n3\<rparr>)"
    using assms(1) by (simp_all add: sync_handles_def)
  from init_socket_result [OF this(2), of e] obtain p4 where
    p4: "init_socket e (p\<lparr>pnode := n3\<rparr>) = Inr (socket_granted e, p4)"
    "pnode p4 = upd_srv (\<lambda>s. s\<lparr>server_socket := listen_fd e\<rparr>) n3" "web_calls p4 = web_calls p"
    "pid_file p4 = pid_file p" "live p4 = (if socket_granted e then insert (Descriptor (listen_fd e)) (set sync_handles)
                else set sync_handles)"
    using assms(1) by auto
  obtain n5 where n5: "cleanup_devices id (pnode p4) = Inr n5" "devices_off n5"
    using cleanup_devices_calm [of "pnode p4"] n3 p4 by auto
  let ?n = "upd_srv (\<lambda>s. s\<lparr>server_running := True, client_socket := - 1, client_connected := False,
    web_server_pid := - 1\<rparr>) (pnode p4)"
  have idle: "idle ?n" if "tone_create_ret (device_env e) = 0"
    by (rule idle_start) (use n3 p4 assms(5) that in \<open>simp_all add: blank_def\<close>)
  then have rest: "resting {} (p4\<lparr>pnode := ?n\<rparr>)" if "service_granted e"
    using that n3 p4 assms(5)
    by (simp add: resting_def service_granted_def socket_granted_def blank_def idle_sound)
  consider "tone_create_ret (device_env e) \<noteq> 0"
    | "tone_create_ret (device_env e) = 0" "\<not> socket_granted e" | "service_granted e"
    by (auto simp: service_granted_def)
  then show ?thesis
  proof cases
    case 1
    with assms(1) n3 sync show ?thesis by (simp add: init_service_def service_granted_def release_all_live)
  next
    case 2
    with n3 p4 n5 sync show ?thesis by (simp add: init_service_def service_granted_def release_all_live)
  next
    case 3
    with n3 p4 rest idle show ?thesis by (simp add: init_service_def service_granted_def upd_node_def)
  qed
qed

lemma server_init_result:
  assumes "loaded p"
  shows "\<exists>p'. server_init e p = Inr (if init_granted e then 0 else - 1, p') \<and>
     web_calls p' = web_calls p \<and> pid_file p' = pid_file p \<and>
     (if init_granted e
      then resting {} p' \<and> idle (pnode p') \<and> devices_ready (pnode p') \<and> server_running (srv (pnode p')) \<and>
        server_socket (srv (pnode p')) = listen_fd e
      else live p' = {} \<and> devices_off (pnode p'))"
proof -
  obtain r b where ip: "get_server_ip 64 (getifaddrs_ret e) = (r, b)" by (metis surj_pair)
  define p1 where "p1 = upd_node (upd_srv (\<lambda>s. s\<lparr>server_ip := if r = 0 then the b else ''localhost'',
    cmd_queue := queue_init (cmd_queue s)\<rparr>)) (upd_node (upd_srv (\<lambda>_. zero_state)) p)"
  have p1: "devices_off (pnode p1)" "devices_calm (pnode p1)" "cmds (pnode p1) = Map.empty"
    "blank (srv (pnode p1))" "live p1 = {}"
    using assms server_ip_fits [OF ip]
    by (simp_all add: p1_def loaded_def blank_def queue_init_inv zero_state_def)
  from init_sync_result [OF p1(5), of e] obtain p2 where
    p2: "init_sync e p1 = Inr (sync_granted e, p2)" "pnode p2 = pnode p1" "web_calls p2 = web_calls p" "pid_file p2 = pid_file p"
    "live p2 = (if sync_granted e then set sync_handles else {})" by (auto simp: p1_def)
  have init: "server_init e p = (if sync_granted e then init_service e p2 else Inr (- 1, p2))"
    if "wiringPiSetupGpio_ret e \<noteq> - 1"
    using that ip p2(1) by (simp add: server_init_def Let_def p1_def)
  show ?thesis
  proof (cases "wiringPiSetupGpio_ret e \<noteq> - 1 \<and> sync_granted e")
    case True
    with init init_service_result [of p2 e] p1 p2 show ?thesis by (simp add: init_granted_def)
  next
    case False
    with init p1 p2 assms show ?thesis
      by (cases "wiringPiSetupGpio_ret e = - 1")
        (auto simp: init_granted_def server_init_def loaded_def)
  qed
qed

lemma server_init_started:
  assumes "loaded p" "init_granted e"
  shows "\<exists>p'. server_init e p = Inr (0, p') \<and> resting {} p' \<and>
     server_socket (srv (pnode p')) = listen_fd e \<and> web_calls p' = web_calls p \<and> pid_file p' = pid_file p"
  using server_init_result [OF assms(1), of e] assms(2) by auto

section \<open>Cleaning up releases everything\<close>

text \<open>The device clean-up: everything off, unless a melody still plays when it looks.\<close>

lemma cleanup_devices_result:
  "(\<exists>n'. cleanup_devices between n = Inr n' \<and> devices_off n' \<and> cmds n' = cmds n) \<or>
   cleanup_devices between n = Inl BadHandle \<and> is_playing (between (snd (stop_music (buzzer (buz n)))))"
  using led_dev.cleanup_ready [of "leds n"] sensor_dev.cleanup_ready [of "sensor n"]
    seg7_dev.cleanup_ready [of "seg7 (seg n)"]
  by (auto simp: cleanup_devices_def node_music_cleanup_def music_cleanup_def
      node_led_cleanup_def node_sensor_cleanup_def node_seg7_cleanup_def devices_off_def Let_def)

lemma web_wait_None: "web_wait ps pid n = None \<longleftrightarrow> (\<forall>k. n \<le> k \<longrightarrow> k < 50 \<longrightarrow> ps k \<noteq> pid)"
proof (induction ps pid n rule: web_wait.induct)
  case (1 ps pid n)
  have "(\<forall>k. n \<le> k \<longrightarrow> k < 50 \<longrightarrow> ps k \<noteq> pid) \<longleftrightarrow>
      ps n \<noteq> pid \<and> (\<forall>k. Suc n \<le> k \<longrightarrow> k < 50 \<longrightarrow> ps k \<noteq> pid)" if "n < 50"
    using that by (metis Suc_leD Suc_leI le_neq_implies_less order_refl)
  with 1 show ?case by (subst web_wait.simps) auto
qed

lemma stop_web_server_calls:
  assumes "0 < pid" "kill_ret e = 0"
  shows "stop_web_server e pid =
     (if \<exists>k < 50. polls e k = pid then [KillTerm pid] else [KillTerm pid, KillKill pid, WaitBlocking pid])"
  using assms web_wait_None [of "polls e" pid 0]
  by (cases "web_wait (polls e) pid 0") (auto simp: stop_web_server_def)

definition released :: "process \<Rightarrow> bool" where
  "released p \<longleftrightarrow> live p = {} \<and> devices_off (pnode p) \<and> cmds (pnode p) = Map.empty"

lemma server_cleanup_result:
  assumes "resting {DeviceThread} p"
  shows "(\<exists>p'. server_cleanup w joining between p = Some (Inr p') \<and> released p' \<and> pid_file p' = pid_file p \<and>
       web_calls p' = web_calls p @ stop_web_server w (web_server_pid (srv (pnode p)))) \<or>
     server_cleanup w joining between p = Some (Inl BadHandle) \<and> (\<exists>b. is_playing (between (snd (stop_music b))))"
proof -
  let ?n = "upd_srv (\<lambda>s. s\<lparr>server_running := False\<rparr>) (pnode p)"
  have n: "sound ?n" "\<not> client_connected (srv ?n)" "client_socket (srv ?n) = - 1" "0 \<le> server_socket (srv ?n)"
    and live: "live p = insert DeviceThread (insert (Descriptor (server_socket (srv ?n))) (set sync_handles))"
    using assms by (auto simp: resting_def)
  obtain n1 where n1: "activities joining ?n = Inr n1" "sound n1" "same_net ?n n1"
    using activities_sound [OF n(1)] by blast
  let ?s = "srv n1"
  have s: "client_socket ?s = - 1" "0 \<le> server_socket ?s" "server_socket ?s = server_socket (srv ?n)"
    "web_server_pid ?s = web_server_pid (srv (pnode p))"
    using n1(3) n by (simp_all add: same_net_def)
  obtain q where q: "queue_cleanup (cmds n1) (cmd_queue ?s) = Some (Inr (Map.empty, q))"
    using queue_cleanup_empties n1(2) unfolding sound_def queue_ok_def by blast
  have h: "DeviceThread \<notin> set sync_handles" "Descriptor fd \<notin> set sync_handles" "distinct sync_handles" for fd
    by (simp_all add: sync_handles_def)
  have stop: "stop_web_server w (web_server_pid ?s) = []" if "\<not> 0 < web_server_pid ?s"
    using that by (simp add: stop_web_server_def)
  let ?m = "upd_srv (\<lambda>s. s\<lparr>cmd_queue := q\<rparr>) (n1\<lparr>cmds := Map.empty\<rparr>)"
  let ?p = "p\<lparr>pnode := n1, live := set sync_handles,
    web_calls := web_calls p @ stop_web_server w (web_server_pid ?s)\<rparr>"
  have run: "server_cleanup w joining between p =
      Some (checked_bind (cleanup_devices between ?m) (\<lambda>n'. release_all sync_handles (?p\<lparr>pnode := n'\<rparr>)))"
    using n n1(1) s q h live stop
    by (cases p; cases "0 < web_server_pid ?s")
      (simp_all add: server_cleanup_def upd_node_def release_def insert_Diff_if Let_def)
  from cleanup_devices_result [of between ?m] show ?thesis
  proof
    assume "\<exists>n'. cleanup_devices between ?m = Inr n' \<and> devices_off n' \<and> cmds n' = cmds ?m"
    then obtain n' where "cleanup_devices between ?m = Inr n'" "devices_off n'" "cmds n' = Map.empty" by auto
    with run h(3) s(4) show ?thesis by (simp add: release_all_live released_def)
  next
    assume "cleanup_devices between ?m = Inl BadHandle \<and> is_playing (between (snd (stop_music (buzzer (buz ?m)))))"
    with run show ?thesis by auto
  qed
qed

section \<open>Properties\<close>

definition process_demo :: process where
  "process_demo =
     \<lparr>pnode = node_demo\<lparr>leds := led_load, sensor := sensor_load, seg := seg7_boot, buz := buzzer_boot\<rparr>,
      live = {}, web_calls = [], pid_file = None\<rparr>"

definition init_demo :: init_env where
  "init_demo =
     \<lparr>wiringPiSetupGpio_ret = 0,
      getifaddrs_ret = Some [\<lparr>ifa_name = ''lo'', ifa_addr = Some (True, ''127.0.0.1'')\<rparr>,
                             \<lparr>ifa_name = ''wlan0'', ifa_addr = Some (True, ''10.0.0.7'')\<rparr>],
      queue_mutex_ret = 0, state_mutex_ret = 0, queue_not_empty_ret = 0, response_ready_ret = 0,
      device_env = env_demo, listen_fd = 3, setsockopt_ret = 0, getfl_ret = 2, setfl_ret = 0,
      bind_ret = 0, listen_ret = 0\<rparr>"

lemma process_demo_loaded [simp]: "loaded process_demo"
  using flag_boot buzzer_boot_inv led_inv_load
  by (simp add: loaded_def process_demo_def devices_off_def devices_calm_def led_load_def
      sensor_load_def seg7_boot_def seg7_load_def buzzer_boot_def buzzer_load_def)

lemma init_demo_granted [simp]: "init_granted init_demo" "listen_fd init_demo = 3"
  by (simp_all add: init_granted_def init_demo_def sync_granted_def service_granted_def
      socket_granted_def env_demo_def)

text \<open>
  C7. \<^verbatim>\<open>server_init\<close> is all or nothing. Whatever the system calls answer it runs without a
  fault and returns 0 exactly when every step was granted. Then every device library is
  initialised, the queue is empty, the server is marked running with no client, and it holds
  the two mutexes, the two condition variables and the listening socket. Otherwise it returns
  -1, holds nothing and every library it had initialised is cleaned up again.
\<close>

theorem server_init_all_or_nothing:
  assumes "loaded p"
  shows "\<exists>p'. server_init e p = Inr (if init_granted e then 0 else - 1, p') \<and>
     (if init_granted e
      then idle (pnode p') \<and> devices_ready (pnode p') \<and> server_running (srv (pnode p')) \<and>
        \<not> client_connected (srv (pnode p')) \<and> length (server_ip (srv (pnode p'))) < 64 \<and>
        live p' = {QueueMutex, StateMutex, QueueNotEmpty, ResponseReady,
                   Descriptor (server_socket (srv (pnode p')))}
      else live p' = {} \<and> devices_off (pnode p'))"
proof -
  from server_init_result [OF assms, of e] show ?thesis
    by (cases "init_granted e") (auto simp: resting_def sync_handles_def)
qed

theorem server_init_all_or_nothing_witness:
  "(\<exists>p'. server_init init_demo process_demo = Inr (0, p') \<and> devices_ready (pnode p')) \<and>
   (\<exists>p'. server_init (init_demo\<lparr>bind_ret := - 1\<rparr>) process_demo = Inr (- 1, p') \<and> live p' = {})"
proof -
  have "\<not> init_granted (init_demo\<lparr>bind_ret := - 1\<rparr>)"
    by (simp add: init_granted_def service_granted_def socket_granted_def)
  then show ?thesis
    using server_init_all_or_nothing [of process_demo init_demo]
      server_init_all_or_nothing [of process_demo "init_demo\<lparr>bind_ret := - 1\<rparr>"] by auto
qed

end
