(* ===== verification/Daemon.thy ===== *)
theory Daemon
  imports C_Text
begin

text \<open>
  Running as a daemon, \<^verbatim>\<open>server_src/daemon.c\<close>: detaching from the terminal, the PID file,
  and sending the output to the log file. The descriptor table is explicit; a new descriptor is
  the lowest free one. What \<^verbatim>\<open>fork\<close>, \<^verbatim>\<open>setsid\<close> and \<^verbatim>\<open>kill\<close> return is an argument.
\<close>

section \<open>Descriptors\<close>

datatype open_file = Terminal | DevNull | LogFile | OtherFile nat

type_synonym fd_table = "open_file option list"

definition fd_get :: "fd_table \<Rightarrow> nat \<Rightarrow> open_file option" where
  "fd_get t n = (if n < length t then t ! n else None)"

definition fd_put :: "nat \<Rightarrow> open_file option \<Rightarrow> fd_table \<Rightarrow> fd_table" where
  "fd_put n f t = (if n < length t then t[n := f] else t @ replicate (n - length t) None @ [f])"

definition lowest_free :: "fd_table \<Rightarrow> nat" where
  "lowest_free t = length (takeWhile (\<lambda>f. f \<noteq> None) t)"

definition fd_open :: "open_file \<Rightarrow> fd_table \<Rightarrow> nat \<times> fd_table" where
  "fd_open f t = (lowest_free t, fd_put (lowest_free t) (Some f) t)"

definition fd_close :: "nat \<Rightarrow> fd_table \<Rightarrow> fd_table" where
  "fd_close n t = fd_put n None t"

definition fd_dup2 :: "nat \<Rightarrow> nat \<Rightarrow> fd_table \<Rightarrow> fd_table" where
  "fd_dup2 old new t = (if fd_get t old = None then t else fd_put new (fd_get t old) t)"

section \<open>Detaching\<close>

record daemon_env =
  fork1_ret :: c_int
  setsid_ret :: c_int
  fork2_ret :: c_int
  devnull_opens :: bool

text \<open>What becomes of the calling process: an error, an exit of a parent, or the daemon.\<close>

datatype detached = Daemon_error | Parent_exit | Detached fd_table

definition daemonize :: "daemon_env \<Rightarrow> fd_table \<Rightarrow> detached" where
  "daemonize e t =
     (if fork1_ret e < 0 then Daemon_error
      else if fork1_ret e > 0 then Parent_exit
      else if setsid_ret e < 0 then Daemon_error
      else if fork2_ret e < 0 then Daemon_error
      else if fork2_ret e > 0 then Parent_exit
      else
        let t1 = fd_close 2 (fd_close 1 (fd_close 0 t))
        in if \<not> devnull_opens e then Detached t1
           else
             let (fd, t2) = fd_open DevNull t1;
                 t3 = fd_dup2 fd 2 (fd_dup2 fd 1 (fd_dup2 fd 0 t2))
             in Detached (if fd > 2 then fd_close fd t3 else t3))"

text \<open>\<open>opens\<close> says whether the log file could be opened.\<close>

definition redirect_output_to_log :: "bool \<Rightarrow> fd_table \<Rightarrow> fd_table" where
  "redirect_output_to_log opens t =
     (if \<not> opens then t
      else
        let (fd, t1) = fd_open LogFile t;
            t2 = fd_dup2 fd 2 (fd_dup2 fd 1 t1)
        in if fd > 2 then fd_close fd t2 else t2)"

section \<open>The PID file\<close>

text \<open>
  The file's content, \<open>None\<close> when it cannot be opened for reading. \<open>alive\<close> says for which
  process numbers \<^verbatim>\<open>kill(pid, 0)\<close> returns 0.
\<close>

definition write_pid_file ::
  "(int \<Rightarrow> c_int) \<Rightarrow> (c_int \<Rightarrow> bool) \<Rightarrow> bool \<Rightarrow> c_int \<Rightarrow> string option \<Rightarrow> c_int \<times> string option" where
  "write_pid_file conv alive writable self f =
     (let running =
        (case f of
           None \<Rightarrow> False
         | Some text \<Rightarrow> (case scan_d conv text of None \<Rightarrow> False | Some (pid, _) \<Rightarrow> alive pid))
      in if running then (- 1, f)
         else if \<not> writable then (- 1, f)
         else (0, Some (fmt_d self @ NL)))"

text \<open>\<open>unlinks\<close> says whether \<^verbatim>\<open>unlink\<close> succeeds on an existing file.\<close>

definition remove_pid_file :: "bool \<Rightarrow> string option \<Rightarrow> c_int \<times> string option" where
  "remove_pid_file unlinks f =
     (if f = None then (0, None) else if unlinks then (0, None) else (- 1, f))"

section \<open>Lemmas on descriptors\<close>

lemma fd_get_put [simp]: "fd_get (fd_put n f t) k = (if k = n then f else fd_get t k)"
  by (auto simp: fd_get_def fd_put_def nth_append)

lemma fd_get_close [simp]: "fd_get (fd_close n t) k = (if k = n then None else fd_get t k)"
  by (simp add: fd_close_def)

lemma fd_get_lowest [simp]: "fd_get t (lowest_free t) = None"
proof (cases "lowest_free t < length t")
  case True
  then show ?thesis using nth_length_takeWhile [of "\<lambda>f. f \<noteq> None" t]
    by (simp add: fd_get_def lowest_free_def)
qed (simp add: fd_get_def)

lemma lowest_free_least: "k < lowest_free t \<Longrightarrow> fd_get t k \<noteq> None"
proof -
  assume k: "k < lowest_free t"
  then have "takeWhile (\<lambda>f. f \<noteq> None) t ! k \<in> set (takeWhile (\<lambda>f. f \<noteq> None) t)"
    by (simp add: lowest_free_def)
  then have "takeWhile (\<lambda>f. f \<noteq> None) t ! k \<noteq> None" by (blast dest: set_takeWhileD)
  moreover have "takeWhile (\<lambda>f. f \<noteq> None) t ! k = t ! k" "k < length t"
    using k length_takeWhile_le [of "\<lambda>f. f \<noteq> None" t] by (simp_all add: lowest_free_def takeWhile_nth)
  ultimately show ?thesis by (simp add: fd_get_def)
qed

lemma lowest_free_eq:
  assumes "fd_get t n = None" "\<And>k. k < n \<Longrightarrow> fd_get t k \<noteq> None"
  shows "lowest_free t = n"
  using assms lowest_free_least [of n t] fd_get_lowest [of t] by (metis linorder_neqE_nat)

lemma fd_get_dup2 [simp]:
  "fd_get t old = Some f \<Longrightarrow> fd_get (fd_dup2 old new t) k = (if k = new then Some f else fd_get t k)"
  by (simp add: fd_dup2_def)

section \<open>Properties\<close>

text \<open>
  C24. A daemon that has detached and then sent its output to the log has nothing of the
  terminal left: standard input reads \<^verbatim>\<open>/dev/null\<close>, output and errors go to the log file,
  every other descriptor is as it was, and the two temporary descriptors are closed.
\<close>

theorem daemon_descriptors:
  assumes "daemonize e t = Detached t'" "devnull_opens e"
  shows "fd_get t' 0 = Some DevNull \<and> fd_get t' 1 = Some DevNull \<and> fd_get t' 2 = Some DevNull \<and>
     fd_get (redirect_output_to_log True t') 0 = Some DevNull \<and>
     fd_get (redirect_output_to_log True t') 1 = Some LogFile \<and>
     fd_get (redirect_output_to_log True t') 2 = Some LogFile \<and>
     (\<forall>k > 2. fd_get t' k = fd_get t k \<and> fd_get (redirect_output_to_log True t') k = fd_get t k)"
proof -
  let ?t1 = "fd_close 2 (fd_close 1 (fd_close 0 t))"
  have "lowest_free ?t1 = 0" by (rule lowest_free_eq) simp_all
  with assms have t': "fd_get t' k = (if k \<le> 2 then Some DevNull else fd_get t k)" for k
    by (auto simp: daemonize_def fd_open_def Let_def le_Suc_eq numeral_2_eq_2 split: if_splits)
  have "lowest_free t' > 2"
    using t' fd_get_lowest [of t'] by (metis not_le option.distinct(1))
  moreover from this have "fd_get t (lowest_free t') = None"
    using t' [of "lowest_free t'"] by simp
  ultimately show ?thesis
    using t' by (auto simp: redirect_output_to_log_def fd_open_def Let_def)
qed

theorem daemon_descriptors_witness:
  "\<exists>t'. daemonize \<lparr>fork1_ret = 0, setsid_ret = 7, fork2_ret = 0, devnull_opens = True\<rparr>
       [Some Terminal, Some Terminal, Some Terminal] = Detached t' \<and>
     fd_get (redirect_output_to_log True t') 1 = Some LogFile"
proof -
  let ?e = "\<lparr>fork1_ret = 0, setsid_ret = 7, fork2_ret = 0, devnull_opens = True\<rparr>"
  let ?t = "[Some Terminal, Some Terminal, Some Terminal]"
  obtain t' where "daemonize ?e ?t = Detached t'" by (simp add: daemonize_def split_beta Let_def)
  with daemon_descriptors [OF this] show ?thesis by auto
qed

text \<open>
  The PID file keeps a second server out: once a server has written its process number, a
  later start finds it there; while that process lives the start is refused and the file left
  alone, and when it is gone the file is taken over.
\<close>

lemma pid_file_single_instance:
  assumes "write_pid_file conv alive writable self f = (0, f')" "in_int self"
  shows "f' = Some (fmt_d self @ NL) \<and>
     (alive' self \<longrightarrow> write_pid_file conv alive' True other f' = (- 1, f')) \<and>
     (\<not> alive' self \<longrightarrow> write_pid_file conv alive' True other f' = (0, Some (fmt_d other @ NL)))"
proof -
  have "f' = Some (fmt_d self @ NL)"
    using assms(1) by (auto simp: write_pid_file_def Let_def split: if_splits)
  moreover have "scan_d conv (fmt_d self @ NL) = Some (self, NL)"
    using assms(2) by (intro scan_d_fmt_d) (simp_all add: NL_eq)
  ultimately show ?thesis by (simp add: write_pid_file_def)
qed

end
