(* ===== verification/Server_Main.thy ===== *)
theory Server_Main
  imports Server Daemon
begin

text \<open>
  The server program, \<^verbatim>\<open>server_src/main.c\<close>: options, signal dispositions, and the run from
  \<^verbatim>\<open>server_init\<close> over the accept loop to \<^verbatim>\<open>server_cleanup\<close>, with the communication thread
  of every client. What happens at one turn of the accept loop is an event; a list of events is
  a run. The device thread serves the clients as in the theory of the communication thread.
\<close>

section \<open>Options and signals\<close>

datatype options = Run_server bool | Show_help | Bad_option string

fun parse_options :: "bool \<Rightarrow> string list \<Rightarrow> options" where
  "parse_options daemon_mode [] = Run_server daemon_mode"
| "parse_options daemon_mode (a # args) =
     (if a = ''-d'' \<or> a = ''--daemon'' then parse_options True args
      else if a = ''-h'' \<or> a = ''--help'' then Show_help
      else Bad_option a)"

datatype posix_signal = SIGINT | SIGTERM | SIGHUP | SIGQUIT | SIGPIPE | SIGCHLD

datatype disposition = Handle_shutdown | Handle_child | Ignored

definition setup_signal_handlers :: "posix_signal \<Rightarrow> disposition" where
  "setup_signal_handlers s =
     (case s of SIGINT \<Rightarrow> Handle_shutdown | SIGCHLD \<Rightarrow> Handle_child | _ \<Rightarrow> Ignored)"

text \<open>
  The child processes and what \<^verbatim>\<open>waitpid\<close> with \<^verbatim>\<open>WNOHANG\<close> returns, for any child
  and for a given one: a child that has ended is reported once and is then gone.
\<close>

datatype child = Alive | Zombie

type_synonym children = "(c_int \<times> child) list"

definition waitpid_any :: "children \<Rightarrow> c_int \<times> children" where
  "waitpid_any cs =
     (case find (\<lambda>(pid, st). st = Zombie) cs of
        Some (pid, st) \<Rightarrow> (pid, remove1 (pid, st) cs)
      | None \<Rightarrow> (if cs = [] then - 1 else 0, cs))"

definition waitpid :: "c_int \<Rightarrow> children \<Rightarrow> c_int \<times> children" where
  "waitpid pid cs =
     (case map_of cs pid of
        None \<Rightarrow> (- 1, cs)
      | Some Alive \<Rightarrow> (0, cs)
      | Some Zombie \<Rightarrow> (pid, filter (\<lambda>(p, st). p \<noteq> pid) cs))"

function sigchld_handler :: "children \<Rightarrow> children" where
  "sigchld_handler cs =
     (let (r, cs') = waitpid_any cs in if r > 0 then sigchld_handler cs' else cs')"
  by auto
termination
proof (relation "measure length")
  fix cs :: children and x r cs'
  assume x: "x = waitpid_any cs" "(r, cs') = x" and r: "0 < r"
  show "(cs', cs) \<in> measure length"
  proof (cases "find (\<lambda>(pid, st). st = Zombie) cs")
    case None
    with x r show ?thesis by (simp add: waitpid_any_def split: if_splits)
  next
    case (Some y)
    then have "y \<in> set cs" unfolding find_Some_iff by (metis nth_mem)
    then have "length (remove1 y cs) < length cs"
      using length_pos_if_in_set [of y cs] by (simp add: length_remove1)
    with Some x show ?thesis by (simp add: waitpid_any_def split: prod.splits)
  qed
qed simp

declare sigchld_handler.simps [simp del]

text \<open>\<^verbatim>\<open>signal_handler\<close>: it clears \<^verbatim>\<open>g_running\<close> and \<^verbatim>\<open>server_running\<close>.\<close>

definition server_signal_handler :: "bool \<times> process \<Rightarrow> bool \<times> process" where
  "server_signal_handler gp =
     (False, upd_node (upd_srv (\<lambda>s. s\<lparr>server_running := False\<rparr>)) (snd gp))"

definition deliver :: "posix_signal \<Rightarrow> bool \<times> process \<Rightarrow> bool \<times> process" where
  "deliver s gp =
     (if setup_signal_handlers s = Handle_shutdown then server_signal_handler gp else gp)"

section \<open>The accept loop\<close>

datatype accept_error = EAGAIN | EINTR | Other_error

text \<open>
  One turn: what the other threads do and the signals that arrive before the loop's test, what
  \<^verbatim>\<open>accept\<close> returns and why it failed, whether the communication thread could be created, and
  what happens in that thread's turns.
\<close>

record accept_event =
  meanwhile :: "activity list"
  signals :: "posix_signal list"
  accept_ret :: c_int
  accept_errno :: accept_error
  comm_created :: bool
  comm_turns :: "activity list turn_env list"
  comm_input :: "recv_result list"

definition then_run :: "'a checked \<Rightarrow> ('a \<Rightarrow> 'b checked option) \<Rightarrow> 'b checked option" where
  "then_run m f = (case m of Inl e \<Rightarrow> Some (Inl e) | Inr a \<Rightarrow> f a)"

text \<open>The communication thread with its \<^verbatim>\<open>close\<close>, and the join after it.\<close>

definition serve_client ::
  "(int \<Rightarrow> c_int) \<Rightarrow> accept_event \<Rightarrow> process \<Rightarrow> process checked option" where
  "serve_client conv e p =
     (case communication_thread conv activities (comm_turns e) (comm_input e) (pnode p) of
        None \<Rightarrow> None
      | Some res \<Rightarrow>
          Some (checked_bind res (\<lambda>(out, n).
            release_all [Descriptor (client_socket (srv (pnode p))), CommThread] (p\<lparr>pnode := n\<rparr>))))"

text \<open>An accepted connection; the flag says that the client was turned away as busy.\<close>

definition accept_client ::
  "(int \<Rightarrow> c_int) \<Rightarrow> accept_event \<Rightarrow> process \<Rightarrow> (process \<times> bool) checked option" where
  "accept_client conv e p =
     (let fd = accept_ret e;
          p1 = acquire (Descriptor fd) p
      in if client_connected (srv (pnode p1)) then
           Some (checked_bind (release (Descriptor fd) p1) (\<lambda>p2. Inr (p2, True)))
         else
           let p2 = upd_node (upd_srv (\<lambda>s. s\<lparr>client_socket := fd, client_connected := True\<rparr>)) p1
           in if \<not> comm_created e then
                Some (checked_bind (release (Descriptor fd) p2) (\<lambda>p3.
                  Inr (upd_node (upd_srv (\<lambda>s. s\<lparr>client_socket := - 1, client_connected := False\<rparr>)) p3,
                       False)))
              else
                map_option (\<lambda>res. checked_bind res (\<lambda>p3. Inr (p3, False)))
                  (serve_client conv e (acquire CommThread p2)))"

text \<open>
  The loop over the events. \<open>rejected\<close> collects the clients turned away as busy; the outer
  \<open>None\<close> is a run that has not ended when the events are used up.
\<close>

fun accept_loop ::
  "(int \<Rightarrow> c_int) \<Rightarrow> accept_event list \<Rightarrow> bool \<times> process \<Rightarrow> c_int list \<Rightarrow>
     (process \<times> c_int list) checked option" where
  "accept_loop conv [] gp rejected =
     (if fst gp \<and> server_running (srv (pnode (snd gp))) then None else Some (Inr (snd gp, rejected)))"
| "accept_loop conv (e # es) gp rejected =
     then_run (activities (meanwhile e) (pnode (snd gp))) (\<lambda>n.
      let (g_running, p) = fold deliver (signals e) (fst gp, (snd gp)\<lparr>pnode := n\<rparr>)
      in if \<not> (g_running \<and> server_running (srv (pnode p))) then Some (Inr (p, rejected))
         else if accept_ret e < 0 then
           (if accept_errno e = EAGAIN \<or> accept_errno e = EINTR
            then accept_loop conv es (g_running, p) rejected
            else Some (Inr (p, rejected)))
         else
           (case accept_client conv e p of
              None \<Rightarrow> None
            | Some res \<Rightarrow>
                then_run res (\<lambda>(p', busy). accept_loop conv es (g_running, p')
                  (if busy then rejected @ [accept_ret e] else rejected))))"

declare accept_loop.simps [simp del]

lemma then_run_Inr [simp]: "then_run (Inr a) f = f a"
  by (simp add: then_run_def)

section \<open>A run of the server\<close>

record run_env =
  sigaction_int_ret :: c_int
  sigaction_chld_ret :: c_int
  init_answers :: init_env
  web_fork :: fork_result
  web_probe :: c_int
  device_created :: bool
  events :: "accept_event list"
  web_end :: web_env
  joining :: "activity list"
  pid_unlinks :: bool

definition remove_pid :: "bool \<Rightarrow> bool \<Rightarrow> process \<Rightarrow> process" where
  "remove_pid daemon_mode unlinks p =
     (if daemon_mode then p\<lparr>pid_file := snd (remove_pid_file unlinks (pid_file p))\<rparr> else p)"

text \<open>
  \<^verbatim>\<open>main\<close> from the signal handlers on: the exit status (0 or 1), the process and the clients
  turned away. \<^verbatim>\<open>setup_signal_handlers\<close> exits when one of its first two \<^verbatim>\<open>sigaction\<close> calls fails.
  \<open>between\<close> is what a playing thread does while \<^verbatim>\<open>music_cleanup\<close> runs.
\<close>

definition run_server ::
  "(int \<Rightarrow> c_int) \<Rightarrow> (buzzer_lib \<Rightarrow> buzzer_lib) \<Rightarrow> bool \<Rightarrow> run_env \<Rightarrow> process \<Rightarrow>
     (c_int \<times> process \<times> c_int list) checked option" where
  "run_server conv between daemon_mode r p =
     (if sigaction_int_ret r = - 1 \<or> sigaction_chld_ret r = - 1 then Some (Inr (1, p, []))
      else then_run (server_init (init_answers r) p) (\<lambda>(ret, p1).
       if ret \<noteq> 0 then Some (Inr (1, remove_pid daemon_mode (pid_unlinks r) p1, []))
       else
         let (pid, child) = start_web_server WEB_SERVER_PORT (web_fork r) (web_probe r);
             p2 = (upd_node (upd_srv (\<lambda>s. s\<lparr>web_server_pid := pid\<rparr>)) p1)
                    \<lparr>web_calls := web_calls p1 @ (case child of None \<Rightarrow> [] | Some argv \<Rightarrow> [ExecWeb argv])\<rparr>
         in if \<not> device_created r then
              let p3 = (if pid > 0
                        then p2\<lparr>web_calls := web_calls p2 @ stop_web_server (web_end r) pid\<rparr> else p2)
              in map_option (\<lambda>res. checked_bind res (\<lambda>p4.
                     Inr (1, remove_pid daemon_mode (pid_unlinks r) p4, [])))
                   (server_cleanup (web_end r) (joining r) between p3)
            else
              let p3 = acquire DeviceThread (upd_node device_thread_start p2)
              in case accept_loop conv (events r) (True, p3) [] of
                   None \<Rightarrow> None
                 | Some res \<Rightarrow>
                     then_run res (\<lambda>(p4, rejected).
                       map_option (\<lambda>res. checked_bind res (\<lambda>p5.
                           Inr (0, remove_pid daemon_mode (pid_unlinks r) p5, rejected)))
                         (server_cleanup (web_end r) (joining r) between p4))))"

text \<open>
  The whole of \<^verbatim>\<open>main\<close> with its daemon mode: the exit status, the process with the PID file,
  and the descriptors that the standard streams are bound to.
\<close>

record daemon_answers =
  cwd_known :: bool
  detaching :: daemon_env
  chdir_ret :: c_int
  log_opens :: bool
  pid_alive :: "c_int \<Rightarrow> bool"
  pid_writable :: bool
  self_pid :: c_int

definition server_main ::
  "(int \<Rightarrow> c_int) \<Rightarrow> (buzzer_lib \<Rightarrow> buzzer_lib) \<Rightarrow> run_env \<Rightarrow> daemon_answers \<Rightarrow> string list \<Rightarrow>
     fd_table \<Rightarrow> process \<Rightarrow> (c_int \<times> process \<times> fd_table) checked option" where
  "server_main conv between r d args fds p =
     (if \<not> cwd_known d then Some (Inr (1, p, fds))
      else case parse_options False args of
        Show_help \<Rightarrow> Some (Inr (0, p, fds))
      | Bad_option _ \<Rightarrow> Some (Inr (1, p, fds))
      | Run_server daemon_mode \<Rightarrow>
          if \<not> daemon_mode then
            map_option (\<lambda>res. checked_bind res (\<lambda>(ret, p', _). Inr (ret, p', fds)))
              (run_server conv between False r p)
          else
            (case daemonize (detaching d) fds of
               Daemon_error \<Rightarrow> Some (Inr (1, p, fds))
             | Parent_exit \<Rightarrow> Some (Inr (0, p, fds))
             | Detached t \<Rightarrow>
                 if chdir_ret d < 0 then Some (Inr (1, p, t))
                 else
                   let t' = redirect_output_to_log (log_opens d) t;
                       (w, f) = write_pid_file conv (pid_alive d) (pid_writable d) (self_pid d) (pid_file p)
                   in if w < 0 then Some (Inr (1, p\<lparr>pid_file := f\<rparr>, t'))
                      else map_option (\<lambda>res. checked_bind res (\<lambda>(ret, p', _). Inr (ret, p', t')))
                             (run_server conv between True r (p\<lparr>pid_file := f\<rparr>))))"

section \<open>The accept loop keeps the server at rest between clients\<close>

text \<open>What a client cannot change: the listening socket, the web server and the PID file.\<close>

definition same_server :: "process \<Rightarrow> process \<Rightarrow> bool" where
  "same_server p p' \<longleftrightarrow>
     server_socket (srv (pnode p')) = server_socket (srv (pnode p)) \<and>
     web_server_pid (srv (pnode p')) = web_server_pid (srv (pnode p)) \<and>
     web_calls p' = web_calls p \<and> pid_file p' = pid_file p"

lemma same_server_refl [simp]: "same_server p p"
  by (simp add: same_server_def)

lemma same_server_trans: "same_server p p' \<Longrightarrow> same_server p' p'' \<Longrightarrow> same_server p p''"
  by (simp add: same_server_def)

text \<open>
  An event that the operating system can produce: \<^verbatim>\<open>accept\<close> never returns the descriptor of
  the listening socket, and \<^verbatim>\<open>malloc\<close> never what is allocated; and enough turns for what the
  client sends.
\<close>

definition event_ok :: "c_int \<Rightarrow> accept_event \<Rightarrow> bool" where
  "event_ok sock e \<longleftrightarrow>
     accept_ret e \<noteq> sock \<and> length (comm_input e) < length (comm_turns e) \<and>
     (\<forall>w \<in> set (comm_turns e). fresh_alloc w)"

lemma activities_rest:
  assumes "resting T p"
  shows "\<exists>n. activities as (pnode p) = Inr n \<and> resting T (p\<lparr>pnode := n\<rparr>) \<and> same_server p (p\<lparr>pnode := n\<rparr>)"
proof -
  obtain n where "activities as (pnode p) = Inr n" "sound n" "same_net (pnode p) n"
    using activities_sound assms unfolding resting_def by blast
  with assms show ?thesis by (auto simp: resting_def same_server_def same_net_def)
qed

lemma deliver_rest:
  assumes "resting T p"
  shows "resting T (snd (deliver s (g, p)))" "same_server p (snd (deliver s (g, p)))"
    "fst (deliver s (g, p)) = (g \<and> s \<noteq> SIGINT)"
  using assms
  by (cases s; simp add: deliver_def setup_signal_handlers_def server_signal_handler_def
      resting_def same_server_def)+

lemma signals_rest:
  assumes "resting T p"
  obtains g' p' where "fold deliver ss (g, p) = (g', p')" "resting T p'" "same_server p p'"
    "g' = (g \<and> SIGINT \<notin> set ss)"
  using assms
proof (induction ss arbitrary: g p thesis)
  case (Cons s ss)
  obtain g1 p1 where d: "deliver s (g, p) = (g1, p1)" by (metis surj_pair)
  with deliver_rest [OF Cons.prems(2), of s g] have
    1: "resting T p1" "same_server p p1" "g1 = (g \<and> s \<noteq> SIGINT)" by simp_all
  obtain g' p' where "fold deliver ss (g1, p1) = (g', p')" "resting T p'" "same_server p1 p'"
    "g' = (g1 \<and> SIGINT \<notin> set ss)"
    using Cons.IH [OF _ 1(1)] by blast
  with d 1 same_server_trans [OF 1(2)] show ?case by (auto intro: Cons.prems(1))
qed simp

lemma serve_client_rest:
  assumes "resting {DeviceThread} p" "event_ok (server_socket (srv (pnode p))) e"
  shows "\<exists>p'. serve_client conv e (acquire CommThread
       (upd_node (upd_srv (\<lambda>s. s\<lparr>client_socket := accept_ret e, client_connected := True\<rparr>))
         (acquire (Descriptor (accept_ret e)) p))) = Some (Inr p') \<and>
     resting {DeviceThread} p' \<and> same_server p p'"
proof -
  let ?n = "upd_srv (\<lambda>s. s\<lparr>client_socket := accept_ret e, client_connected := True\<rparr>) (pnode p)"
  have "sound ?n" "length (comm_input e) < length (comm_turns e)" "\<forall>w \<in> set (comm_turns e). fresh_alloc w"
    using assms by (simp_all add: resting_def event_ok_def)
  from communication_thread_total [OF this, of conv] obtain out n' where
    n': "communication_thread conv activities (comm_turns e) (comm_input e) ?n = Some (Inr (out, comm_close n'))"
    "sound n'" "same_net ?n n'"
    by blast
  have "Descriptor (accept_ret e) \<notin> live p" "CommThread \<notin> live p"
    using assms by (auto simp: resting_def event_ok_def sync_handles_def)
  then have "release_all [Descriptor (accept_ret e), CommThread]
      (p\<lparr>live := insert CommThread (insert (Descriptor (accept_ret e)) (live p)), pnode := m\<rparr>) =
      Inr (p\<lparr>pnode := m\<rparr>)" for m
    by (simp add: release_def insert_Diff_if)
  then have "serve_client conv e (acquire CommThread
       (upd_node (upd_srv (\<lambda>s. s\<lparr>client_socket := accept_ret e, client_connected := True\<rparr>))
         (acquire (Descriptor (accept_ret e)) p))) = Some (Inr (p\<lparr>pnode := comm_close n'\<rparr>))"
    using n'(1) by (simp add: serve_client_def acquire_def upd_node_def)
  moreover have "resting {DeviceThread} (p\<lparr>pnode := comm_close n'\<rparr>)" "same_server p (p\<lparr>pnode := comm_close n'\<rparr>)"
    using n' assms(1) by (simp_all add: resting_def same_server_def same_net_def comm_close_def)
  ultimately show ?thesis by blast
qed

lemma refused_thread_rest:
  assumes "resting {DeviceThread} p" "event_ok (server_socket (srv (pnode p))) e"
  shows "\<exists>p'. release (Descriptor (accept_ret e))
       (upd_node (upd_srv (\<lambda>s. s\<lparr>client_socket := accept_ret e, client_connected := True\<rparr>))
         (acquire (Descriptor (accept_ret e)) p)) = Inr p' \<and>
     (let p'' = upd_node (upd_srv (\<lambda>s. s\<lparr>client_socket := - 1, client_connected := False\<rparr>)) p'
      in resting {DeviceThread} p'' \<and> same_server p p'')"
proof -
  have "Descriptor (accept_ret e) \<notin> live p"
    using assms by (auto simp: resting_def event_ok_def sync_handles_def)
  with assms(1) show ?thesis
    by (simp add: release_def insert_Diff_if resting_def same_server_def)
qed

text \<open>A connection leaves the server at rest, and no client is turned away.\<close>

lemma accept_client_rest:
  assumes "resting {DeviceThread} p" "event_ok (server_socket (srv (pnode p))) e"
  shows "\<exists>p'. accept_client conv e p = Some (Inr (p', False)) \<and>
     resting {DeviceThread} p' \<and> same_server p p'"
proof -
  have free: "\<not> client_connected (srv (pnode p))" using assms(1) by (simp add: resting_def)
  show ?thesis
  proof (cases "comm_created e")
    case True
    with free serve_client_rest [OF assms, of conv] show ?thesis
      by (auto simp: accept_client_def Let_def)
  next
    case False
    with free refused_thread_rest [OF assms] show ?thesis
      by (auto simp: accept_client_def Let_def)
  qed
qed

text \<open>One turn of the loop that does not end it leaves the server at rest.\<close>

lemma accept_turn:
  assumes "resting {DeviceThread} p" "event_ok (server_socket (srv (pnode p))) e"
  shows "\<exists>g' p'. resting {DeviceThread} p' \<and> same_server p p' \<and>
     (accept_loop conv (e # es) (g, p) rej = Some (Inr (p', rej)) \<or>
      SIGINT \<notin> set (signals e) \<and>
      accept_loop conv (e # es) (g, p) rej = accept_loop conv es (g', p') rej)"
proof -
  obtain n where n: "activities (meanwhile e) (pnode p) = Inr n" "resting {DeviceThread} (p\<lparr>pnode := n\<rparr>)"
    "same_server p (p\<lparr>pnode := n\<rparr>)" using activities_rest [OF assms(1)] by blast
  obtain g1 p1 where 1: "fold deliver (signals e) (g, p\<lparr>pnode := n\<rparr>) = (g1, p1)" "resting {DeviceThread} p1"
    "same_server (p\<lparr>pnode := n\<rparr>) p1" "g1 = (g \<and> SIGINT \<notin> set (signals e))"
    using signals_rest [OF n(2)] .
  note same1 = same_server_trans [OF n(3) 1(3)]
  have "event_ok (server_socket (srv (pnode p1))) e"
    using same1 assms(2) by (simp add: same_server_def)
  from accept_client_rest [OF 1(2) this, of conv] obtain p2 where
    2: "accept_client conv e p1 = Some (Inr (p2, False))" "resting {DeviceThread} p2"
    "same_server p1 p2" by blast
  have "accept_loop conv (e # es) (g, p) rej =
     (if \<not> (g1 \<and> server_running (srv (pnode p1))) then Some (Inr (p1, rej))
      else if accept_ret e < 0 then
        (if accept_errno e = EAGAIN \<or> accept_errno e = EINTR then accept_loop conv es (g1, p1) rej
         else Some (Inr (p1, rej)))
      else accept_loop conv es (g1, p2) rej)"
    by (subst accept_loop.simps(2)) (simp add: n(1) 1(1) 2(1))
  then show ?thesis using 1 2 same1 same_server_trans [OF same1 2(3)] by metis
qed

lemma accept_loop_ends:
  assumes "resting {DeviceThread} p" "\<forall>e \<in> set es. event_ok (server_socket (srv (pnode p))) e"
    and "\<exists>e \<in> set es. SIGINT \<in> set (signals e)"
  shows "\<exists>p'. accept_loop conv es (g, p) rej = Some (Inr (p', rej)) \<and>
     resting {DeviceThread} p' \<and> same_server p p'"
  using assms
proof (induction es arbitrary: g p)
  case (Cons e es)
  have "event_ok (server_socket (srv (pnode p))) e" using Cons.prems by simp
  from accept_turn [OF Cons.prems(1) this, of conv es g rej] obtain g' p' where
    p': "resting {DeviceThread} p'" "same_server p p'" and
    turn: "accept_loop conv (e # es) (g, p) rej = Some (Inr (p', rej)) \<or>
      SIGINT \<notin> set (signals e) \<and>
      accept_loop conv (e # es) (g, p) rej = accept_loop conv es (g', p') rej" by blast
  from turn show ?case
  proof
    assume again: "SIGINT \<notin> set (signals e) \<and>
      accept_loop conv (e # es) (g, p) rej = accept_loop conv es (g', p') rej"
    then have "\<forall>e \<in> set es. event_ok (server_socket (srv (pnode p'))) e"
      "\<exists>e \<in> set es. SIGINT \<in> set (signals e)"
      using Cons.prems p'(2) by (auto simp: same_server_def)
    from Cons.IH [OF p'(1) this, of g'] again p'(2) show ?case by (auto intro: same_server_trans)
  qed (use p' in blast)
qed simp

section \<open>Reaping children\<close>

text \<open>The loop of \<^verbatim>\<open>sigchld_handler\<close> takes away the children that have ended, and only those.\<close>

lemma waitpid_any_first:
  assumes "\<forall>x \<in> set us. snd x \<noteq> Zombie"
  shows "waitpid_any (us @ (pid, Zombie) # vs) = (pid, us @ vs)"
proof -
  have "find (\<lambda>(pid, st). st = Zombie) (us @ (pid, Zombie) # vs) = Some (pid, Zombie)"
    using assms by (induction us) auto
  moreover have "(pid, Zombie) \<notin> set us" using assms by auto
  ultimately show ?thesis by (simp add: waitpid_any_def remove1_append)
qed

lemma waitpid_any_none:
  assumes "\<forall>x \<in> set cs. snd x \<noteq> Zombie"
  shows "waitpid_any cs = (if cs = [] then - 1 else 0, cs)"
proof -
  have "find (\<lambda>(pid, st). st = Zombie) cs = None" using assms by (auto simp: find_None_iff)
  then show ?thesis by (simp add: waitpid_any_def)
qed

lemma sigchld_handler_filter:
  "\<forall>x \<in> set cs. 0 < fst x \<Longrightarrow> sigchld_handler cs = filter (\<lambda>(pid, st). st \<noteq> Zombie) cs"
proof (induction "length cs" arbitrary: cs rule: less_induct)
  case less
  show ?case
  proof (cases "\<exists>x \<in> set cs. snd x = Zombie")
    case True
    then obtain us x vs where cs: "cs = us @ x # vs" "snd x = Zombie" "\<forall>x \<in> set us. snd x \<noteq> Zombie"
      by (rule split_list_first_propE)
    obtain pid where "x = (pid, Zombie)" using cs(2) by (cases x) simp
    with cs less.prems have "sigchld_handler cs = sigchld_handler (us @ vs)"
      by (subst sigchld_handler.simps) (simp add: waitpid_any_first)
    with less.hyps [of "us @ vs"] less.prems cs(1,2) show ?thesis by (auto simp: split_beta)
  next
    case False
    then show ?thesis
      by (subst sigchld_handler.simps) (auto simp: waitpid_any_none intro!: filter_True [symmetric])
  qed
qed

lemma reaped_gone:
  assumes "\<forall>x \<in> set cs. 0 < fst x" "distinct (map fst cs)" "map_of cs pid = Some Zombie"
  shows "map_of (sigchld_handler cs) pid = None"
proof -
  have "st = Zombie" if "(pid, st) \<in> set cs" for st
    using that assms(2,3) by simp
  then show ?thesis using assms(1) by (auto simp: sigchld_handler_filter map_of_eq_None_iff)
qed

section \<open>Properties\<close>

lemma remove_pid_simps [simp]:
  "pnode (remove_pid daemon_mode unlinks p) = pnode p" "live (remove_pid daemon_mode unlinks p) = live p"
  "web_calls (remove_pid daemon_mode unlinks p) = web_calls p"
  by (simp_all add: remove_pid_def)

lemma started_rest:
  assumes "resting {} p"
  shows "resting {DeviceThread} (acquire DeviceThread (upd_node device_thread_start
     ((upd_node (upd_srv (\<lambda>s. s\<lparr>web_server_pid := pid\<rparr>)) p)\<lparr>web_calls := calls\<rparr>)))"
  using assms by (simp add: resting_def device_thread_start_def)


definition event_demo :: accept_event where
  "event_demo =
     \<lparr>meanwhile = [Device_works env_demo], signals = [SIGTERM], accept_ret = 5,
      accept_errno = Other_error, comm_created = True,
      comm_turns = [turn_demo, turn_demo], comm_input = [Received (''1'' @ NL)]\<rparr>"

definition run_demo :: run_env where
  "run_demo =
     \<lparr>sigaction_int_ret = 0, sigaction_chld_ret = 0, init_answers = init_demo, web_fork = Forked 77,
      web_probe = 0, device_created = True, events = [event_demo, event_demo\<lparr>signals := [SIGINT]\<rparr>],
      web_end = \<lparr>kill_ret = 0, polls = \<lambda>k. if k = 3 then 77 else 0\<rparr>, joining = [],
      pid_unlinks = True\<rparr>"

lemma event_demo_ok [simp]: "event_ok 3 event_demo" "event_ok 3 (event_demo\<lparr>signals := ss\<rparr>)"
  by (simp_all add: event_demo_def event_ok_def)


text \<open>
  C22. No client is ever turned away as busy: however connections, failures, signals and the
  work of the other threads follow one another, the loop that meets SIGINT ends without a fault
  and without a rejected client, and every accepted descriptor has been closed, because
  \<^verbatim>\<open>main\<close> waits for the end of a client's thread before it accepts the next one.
\<close>

theorem no_client_rejected:
  assumes "resting {DeviceThread} p" "\<forall>e \<in> set es. event_ok (server_socket (srv (pnode p))) e"
    and "\<exists>e \<in> set es. SIGINT \<in> set (signals e)"
  shows "\<exists>p'. accept_loop conv es (g, p) [] = Some (Inr (p', [])) \<and> live p' = live p"
proof -
  obtain p' where "accept_loop conv es (g, p) [] = Some (Inr (p', []))"
    "resting {DeviceThread} p'" "same_server p p'"
    using accept_loop_ends [OF assms] by blast
  with assms(1) show ?thesis by (auto simp: resting_def same_server_def)
qed

lemma process_demo_running:
  obtains p where "resting {DeviceThread} p" "server_socket (srv (pnode p)) = 3"
proof -
  obtain p where p: "resting {} p" "server_socket (srv (pnode p)) = 3"
    using server_init_started [of process_demo init_demo] by auto
  show thesis
    by (rule that [OF started_rest [OF p(1), where pid = "- 1" and calls = "[]"]]) (simp add: p(2) device_thread_start_def)
qed

theorem no_client_rejected_witness:
  "\<exists>p p'. accept_loop id [event_demo, event_demo\<lparr>signals := [SIGINT]\<rparr>] (True, p) [] =
     Some (Inr (p', []))"
proof -
  obtain p where "resting {DeviceThread} p" "server_socket (srv (pnode p)) = 3"
    by (rule process_demo_running)
  then show ?thesis
    using no_client_rejected [of p "[event_demo, event_demo\<lparr>signals := [SIGINT]\<rparr>]" id True]
    by auto
qed

text \<open>
  C34. When the device thread cannot be created, \<^verbatim>\<open>main\<close> calls \<^verbatim>\<open>server_cleanup\<close>, which
  joins that thread all the same: the error path always ends in a fault.
\<close>

theorem device_thread_failure_faults:
  assumes "loaded p" "init_granted (init_answers r)" "\<not> device_created r"
    and "sigaction_int_ret r \<noteq> - 1" "sigaction_chld_ret r \<noteq> - 1"
  shows "run_server conv between daemon_mode r p = Some (Inl BadHandle)"
proof -
  obtain p1 where p1: "server_init (init_answers r) p = Inr (0, p1)" "resting {} p1"
    using server_init_started [OF assms(1,2)] by blast
  have cleanup: "server_cleanup (web_end r) (joining r) between p2 = Some (Inl BadHandle)"
    if "resting {} p2" for p2
  proof -
    let ?n = "upd_srv (\<lambda>s. s\<lparr>server_running := False\<rparr>) (pnode p2)"
    have "sound ?n" "\<not> client_connected (srv ?n)" "DeviceThread \<notin> live p2"
      using that by (auto simp: resting_def sync_handles_def)
    with activities_sound [of ?n "joining r"] show ?thesis
      by (auto simp: server_cleanup_def release_def Let_def)
  qed
  have "resting {} ((upd_node (upd_srv (\<lambda>s. s\<lparr>web_server_pid := pid\<rparr>)) p1)\<lparr>web_calls := calls\<rparr>)"
    for pid calls using p1(2) by (simp add: resting_def)
  with cleanup p1(1) assms(3-5) show ?thesis
    by (simp add: run_server_def Let_def split_beta)
qed

theorem device_thread_failure_faults_witness:
  "run_server id id False (run_demo\<lparr>device_created := False\<rparr>) process_demo = Some (Inl BadHandle)"
  by (rule device_thread_failure_faults) (simp_all add: run_demo_def)

text \<open>
  C35. The SIGCHLD handler takes the end of the web server away from the code that asks for it.
  When the web server has ended, \<^verbatim>\<open>start_web_server\<close> would report the failure, but once the
  handler has run it reports success; and when the web server obeys SIGTERM, after any number
  \<open>k\<close> of polls, \<^verbatim>\<open>stop_web_server\<close> goes on polling and sends SIGKILL to a process number
  that is no longer its child's.
\<close>

theorem reaped_web_server_unnoticed:
  assumes "0 < pid" "\<forall>x \<in> set cs. 0 < fst x" "distinct (map fst cs)" "map_of cs pid = Some Zombie"
    and "map_of earlier pid = Some Alive"
  shows "fst (start_web_server port (Forked pid) (fst (waitpid pid cs))) = - 1 \<and>
     fst (start_web_server port (Forked pid) (fst (waitpid pid (sigchld_handler cs)))) = pid \<and>
     stop_web_server \<lparr>kill_ret = 0,
         polls = (\<lambda>i. fst (waitpid pid (if i < k then earlier else sigchld_handler cs)))\<rparr> pid =
       [KillTerm pid, KillKill pid, WaitBlocking pid]"
  using assms reaped_gone [OF assms(2-4)]
  by (auto simp: start_web_server_def waitpid_def stop_web_server_calls)

theorem reaped_web_server_unnoticed_witness:
  "fst (start_web_server 8000 (Forked 77) (fst (waitpid 77 (sigchld_handler [(77, Zombie)])))) = 77"
  using reaped_web_server_unnoticed [of 77 "[(77, Zombie)]" "[(77, Alive)]" 8000 0] by simp

text \<open>However it got there, a run in daemon mode that returns has removed the PID file.\<close>

lemma remove_pid_last:
  assumes "checked_bind m (\<lambda>p. Inr (k, remove_pid True True p, rej)) = Inr (ret, p', rejected)"
  shows "pid_file p' = None"
  using assms by (cases m) (auto simp: remove_pid_def remove_pid_file_def)

lemma exit_result:
  assumes "map_option (\<lambda>res. checked_bind res (\<lambda>(ret, p', _). Inr (ret, p', t))) m = Some (Inr (ret, p', t'))"
  obtains rejected where "m = Some (Inr (ret, p', rejected))"
proof (cases m)
  case (Some res)
  with assms that show thesis by (cases res) auto
qed (use assms in simp)

lemma run_server_removes_pid:
  assumes "sigaction_int_ret r \<noteq> - 1" "sigaction_chld_ret r \<noteq> - 1" "pid_unlinks r"
    and "run_server conv between True r p = Some (Inr (ret, p', rejected))"
  shows "pid_file p' = None"
proof -
  obtain k p1 where p1: "server_init (init_answers r) p = Inr (k, p1)"
    using assms by (cases "server_init (init_answers r) p") (auto simp: run_server_def then_run_def)
  show ?thesis
  proof (cases "k \<noteq> 0")
    case True
    with assms p1 show ?thesis by (auto simp: run_server_def remove_pid_def remove_pid_file_def)
  next
    case False
    obtain pid child where w: "start_web_server WEB_SERVER_PORT (web_fork r) (web_probe r) = (pid, child)"
      by (metis surj_pair)
    show ?thesis
    proof (cases "device_created r")
      case True
      with False assms p1 w show ?thesis
        by (auto simp: run_server_def Let_def then_run_def split: option.splits sum.splits
            dest!: remove_pid_last)
    next
      case not_created: False
      with False assms p1 w show ?thesis
        by (auto simp: run_server_def Let_def dest!: remove_pid_last)
    qed
  qed
qed

lemma run_server_init_fails:
  assumes "sigaction_int_ret r \<noteq> - 1" "sigaction_chld_ret r \<noteq> - 1"
    and "loaded p" "\<not> init_granted (init_answers r)"
  shows "\<exists>p'. run_server conv between daemon_mode r p =
     Some (Inr (1, remove_pid daemon_mode (pid_unlinks r) p', [])) \<and> live p' = {} \<and>
     pid_file p' = pid_file p"
  using assms server_init_result [OF assms(3), of "init_answers r"]
  by (auto simp: run_server_def)

text \<open>
  C23. The PID file across a daemon's life. A start that finds a server alive under the number
  in the file leaves the file as it is and does not run. Any other start, with no file or with
  the number of a process that is gone, writes its own number and runs with that file; when
  this run returns, however it came to that, the file is gone. In particular it is gone when
  initialisation fails, and then the exit status is 1.
\<close>

theorem daemon_pid_file_life:
  assumes "parse_options False args = Run_server True" "daemonize (detaching d) fds = Detached t"
    and "cwd_known d" "0 \<le> chdir_ret d" "pid_writable d" "pid_unlinks r"
    and "sigaction_int_ret r \<noteq> - 1" "sigaction_chld_ret r \<noteq> - 1"
    and "pid_file p = map_option (\<lambda>k. fmt_d k @ NL) old" "\<forall>k. old = Some k \<longrightarrow> in_int k"
  shows "\<exists>t'. (if \<exists>k. old = Some k \<and> pid_alive d k
     then server_main conv between r d args fds p = Some (Inr (1, p, t'))
     else
       server_main conv between r d args fds p =
         map_option (\<lambda>res. checked_bind res (\<lambda>(ret, p', _). Inr (ret, p', t')))
           (run_server conv between True r (p\<lparr>pid_file := Some (fmt_d (self_pid d) @ NL)\<rparr>)) \<and>
       (\<forall>ret p' t''. server_main conv between r d args fds p = Some (Inr (ret, p', t'')) \<longrightarrow>
          pid_file p' = None) \<and>
       (loaded p \<and> \<not> init_granted (init_answers r) \<longrightarrow>
          (\<exists>p'. server_main conv between r d args fds p = Some (Inr (1, p', t')) \<and> pid_file p' = None)))"
proof -
  let ?t = "redirect_output_to_log (log_opens d) t"
  let ?p = "p\<lparr>pid_file := Some (fmt_d (self_pid d) @ NL)\<rparr>"
  have scan: "scan_d conv (fmt_d k @ NL) = Some (k, NL)" if "old = Some k" for k
    using that assms(10) by (intro scan_d_fmt_d) (simp_all add: NL_eq)
  have main: "server_main conv between r d args fds p =
     (if \<exists>k. old = Some k \<and> pid_alive d k then Some (Inr (1, p, ?t))
      else map_option (\<lambda>res. checked_bind res (\<lambda>(ret, p', _). Inr (ret, p', ?t)))
             (run_server conv between True r ?p))"
    using assms(1-5,9) scan
    by (cases old) (auto simp: server_main_def write_pid_file_def Let_def)
  have "pid_file p' = None"
    if "map_option (\<lambda>res. checked_bind res (\<lambda>(ret, p', _). Inr (ret, p', ?t)))
          (run_server conv between True r ?p) = Some (Inr (ret, p', t''))" for ret p' t''
    using that by (rule exit_result) (rule run_server_removes_pid [OF assms(7,8,6)])
  moreover have "\<exists>p'. run_server conv between True r ?p = Some (Inr (1, p', [])) \<and> pid_file p' = None"
    if "loaded p" "\<not> init_granted (init_answers r)"
    using that run_server_init_fails [OF assms(7,8), of ?p conv between True] assms(6)
    by (auto simp: loaded_def remove_pid_def remove_pid_file_def)
  ultimately show ?thesis unfolding main by (intro exI [of _ ?t]) auto
qed

definition daemon_demo :: daemon_answers where
  "daemon_demo =
     \<lparr>cwd_known = True, detaching = \<lparr>fork1_ret = 0, setsid_ret = 7, fork2_ret = 0, devnull_opens = True\<rparr>,
      chdir_ret = 0, log_opens = True, pid_alive = (\<lambda>k. k = 812), pid_writable = True, self_pid = 900\<rparr>"

theorem daemon_pid_file_life_witness:
  "\<exists>t' p'. server_main id id (run_demo\<lparr>init_answers := init_demo\<lparr>bind_ret := - 1\<rparr>\<rparr>) daemon_demo [''-d'']
       [Some Terminal, Some Terminal, Some Terminal] (process_demo\<lparr>pid_file := Some (fmt_d 811 @ NL)\<rparr>) =
     Some (Inr (1, p', t')) \<and> pid_file p' = None"
proof -
  let ?r = "run_demo\<lparr>init_answers := init_demo\<lparr>bind_ret := - 1\<rparr>\<rparr>"
  let ?p = "process_demo\<lparr>pid_file := Some (fmt_d 811 @ NL)\<rparr>"
  have "\<not> init_granted (init_demo\<lparr>bind_ret := - 1\<rparr>)"
    by (simp add: init_granted_def service_granted_def socket_granted_def)
  moreover have "loaded ?p" using process_demo_loaded by (simp add: loaded_def)
  moreover obtain t where "daemonize (detaching daemon_demo) [Some Terminal, Some Terminal, Some Terminal] =
      Detached t"
    by (simp add: daemonize_def daemon_demo_def split_beta Let_def)
  ultimately show ?thesis
    using daemon_pid_file_life [of "[''-d'']" daemon_demo "[Some Terminal, Some Terminal, Some Terminal]" t
        ?r ?p "Some 811" id id]
    by (auto simp: daemon_demo_def run_demo_def int_range_defs)
qed

end
