(* ===== verification/Spec2Isabelle.thy ===== *)
theory Spec2Isabelle
  imports Client Server_Threads Server_Main
begin

text \<open>
  A verification of the IoT device server and its client.

  \<^bold>\<open>The program.\<close> A server on a Raspberry Pi drives an LED, a light sensor, a 7-segment display
  and a buzzer through four small libraries over wiringPi. Its \<^verbatim>\<open>main\<close> initialises everything,
  starts a camera web server as a child process and accepts one TCP client at a time. A
  communication thread per client shows a menu, reads a line and parses it, puts a command into
  a ring buffer and waits for the response; a device thread takes the commands, runs their
  handlers, publishes the response and polls the light sensor. The display and the buzzer
  libraries run threads of their own; a finished countdown calls back into the server, which
  then plays a melody. The client program forwards menu choices typed at its terminal.

  \<^bold>\<open>Theories, in the order of the calls.\<close>
  \<^item> \<open>Prelude\<close>: the range of \<^verbatim>\<open>int\<close>, faults (undefined behaviour of C as the left of a sum),
    what the operating system answers, and the theorem collections.
  \<^item> \<open>C_Text\<close>: C strings, \<^verbatim>\<open>%d\<close> printing and scanning, \<^verbatim>\<open>atoi\<close>, \<^verbatim>\<open>snprintf\<close> truncation. What
    \<^verbatim>\<open>%d\<close> makes of a number outside the range of \<^verbatim>\<open>int\<close> is undefined in C: it is the parameter
    \<open>conv\<close> of every definition that scans. Only the bound on the answers' length assumes
    something of it, that what is stored is an \<^verbatim>\<open>int\<close>.
  \<^item> \<open>Gpio\<close>: the wiringPi calls as a log, and what a pin was last told.
  \<^item> \<open>Led\<close>, \<open>Light_Sensor\<close>, \<open>Segment7\<close>, \<open>Buzzer\<close>: the libraries \<^verbatim>\<open>led.c\<close>, \<^verbatim>\<open>light_sensor.c\<close>,
    \<^verbatim>\<open>7segment.c\<close>, \<^verbatim>\<open>buzzer.c\<close>. A record holds the static variables and the log of calls; every
    entry point is a function on it. The counting and the playing thread are step machines
    whose program counters are the places where they sleep or touch shared flags. \<^verbatim>\<open>seg7_counting\<close>
    is split where it releases its mutex, into the claim of the flag and the creation of the
    thread; the buzzer records whether its thread is detached; whether the LED shines is stated
    for both ways to wire it.
  \<^item> \<open>Command_Queue\<close>: \<^verbatim>\<open>command_queue.c\<close> over an explicit heap of commands, so that a leak, a
    double free or an index out of range is visible.
  \<^item> \<open>Device_Control\<close>: \<^verbatim>\<open>device_control.c\<close>. The \<open>node\<close> is the server state of \<^verbatim>\<open>server.h\<close> with
    the libraries and the heap; one function per handler, the callback, the sensor automaton,
    and a pass of the thread.
  \<^item> \<open>Activity\<close>: what the other threads do while one thread waits, as a list of passes of the
    device thread, steps of library threads with their callback, and stop signals.
  \<^item> \<open>Communication\<close>: \<^verbatim>\<open>communication.c\<close>, its texts, parser and loop; what \<^verbatim>\<open>recv\<close> and the waits
    return are arguments, and so is the list of activities before and during each wait; being
    woken and being served are independent of each other.
  \<^item> \<open>Server_Threads\<close>: the same two threads again as step relations around \<^verbatim>\<open>queue_mutex\<close> and
    the two condition variables, with the library threads, the callback, timeouts, spurious
    wake-ups and the stop signal in any interleaving.
  \<^item> \<open>Server\<close>: \<^verbatim>\<open>server.c\<close>, start-up with all its error paths and shutdown, over the set of
    handles (mutexes, condition variables, descriptors, threads) that the process holds; the
    PID file is a part of the process.
  \<^item> \<open>Daemon\<close>: \<^verbatim>\<open>daemon.c\<close> over a descriptor table and the text of the PID file.
  \<^item> \<open>Server_Main\<close>: \<^verbatim>\<open>server_src/main.c\<close>, options, signals and reaping of children, the accept
    loop over a list of events with the activities of the other threads between them, and whole
    runs with the removal of the PID file at each of their ends.
  \<^item> \<open>Client\<close>: \<^verbatim>\<open>client.c\<close> and the client's \<^verbatim>\<open>main.c\<close>, with standard input as a string that
    ends and signals that may arrive in the middle of \<^verbatim>\<open>client_disconnect\<close>; and the properties
    of client and server together.

  \<^bold>\<open>Interfaces.\<close> The locale \<open>device_library\<close> (initialise, use, clean up) is interpreted on the
  four libraries as \<open>led_dev\<close>, \<open>sensor_dev\<close>, \<open>seg7_dev\<close> and \<open>buzzer_dev\<close>; \<open>bounded_fifo\<close>, the
  contract of a bounded queue, on the ring buffer as \<open>ring\<close>; and \<open>command_server\<close>, what the
  communication thread needs of the others (their work keeps the server sound, and some of it
  takes the oldest command and publishes its answer), on the activities as \<open>device_server\<close>.

  \<^bold>\<open>What is shown.\<close>
  \<^item> Queue: the ring refines a first-in first-out list of at most 100 commands, and its clean-up
    frees every command once.
  \<^item> Libraries: what \<^verbatim>\<open>led_is_on\<close> says and the pin's level agree after any sequence of calls; a
    countdown writes its digits down to zero; a melody is played note by note; the flags have an
    owner under every interleaving; a playing thread ends within 27100 steps and stops within
    50 ms.
  \<^item> Device thread: no undefined behaviour, exactly which commands succeed, failed ones change
    nothing, a countdown ends with the bell when the bell can be rung, and the sensor switches
    the LED itself.
  \<^item> Communication: the thread ends for every client, answers fit their buffer, a request gets
    its own answer; client and server agree on texts and dialogue.
  \<^item> Threads: ownership of commands and the mutex discipline under every interleaving; a reply
    belongs to its request unless a wait lapses; a waiting client is answered within eleven
    steps of the device thread. A lemma ties the two models of the device thread together: the
    pass of \<open>Device_Control\<close> is a run of these steps.
  \<^item> Server: \<^verbatim>\<open>server_init\<close> is all or nothing; a run that meets SIGINT ends and releases
    everything, or faults at the join of a melody's detached thread; no client is turned away;
    the daemon's descriptors and PID file.
  \<^item> Client: it ends when the session does and closes its socket.
  \<^item> Behaviour that the code hardly means: two countdowns at once, a detached thread joined, the
    LED escaping the sensor, an LED that is dark when it should shine with the wiring of its
    README, an answer delivered for the wrong command after a timeout, a late callback that
    hides a countdown, client and server waiting for each other after an invalid choice, a
    client that spins at the end of its input or closes its socket twice, a web server reaped
    behind the back of the code that asks for its end, and an error path that joins a thread
    that was never created.

  \<^bold>\<open>Bounds.\<close> Loops that the code bounds are functions with a termination proof (the 50 polls
  for the web server, the reaping of children). The communication loop and the accept loop consume lists of what
  the system calls return; they return \<open>None\<close> only when the list runs out, and their theorems show
  that a list with one turn more than there are receives, or one that contains SIGINT, is always enough. So is a
  list with an input that ends the session for the client's loop, while the user types numbers. Waiting for a
  countdown, the clean-up of the queue and the client's skipping of a line are partial functions: the first is
  shown to return at the first poll that finds the flag clear, the second always, the third not at the end of
  the input. 27100 steps suffice for the longest melody: each note is waited for in slices of 50 ms. Eleven
  steps are the rest of a round of the device thread's loop and one more.

  \<^bold>\<open>What is left out.\<close> The camera web server (Python, a separate process, of which the server uses
  only its process number), the build files, and code that only prints: \<^verbatim>\<open>print_menu\<close>,
  \<^verbatim>\<open>print_usage\<close>, \<^verbatim>\<open>log_message\<close> and the messages on the terminal. wiringPi is represented by the
  calls made to it. \<^verbatim>\<open>umask\<close>, the buffering mode of the streams and the 100 ms and 500 ms pauses
  of \<^verbatim>\<open>main\<close> have no counterpart. In \<open>Server_Threads\<close> a command's handler is one step, and so is a
  critical section of \<^verbatim>\<open>state_mutex\<close>, which contains no wait; reading a request is one step.
  So a library call's failure that only a change in the middle of a handler could cause, such
  as the answer "Failed to stop music", does not occur in the model. The parameter blocks that
  the libraries allocate for their threads are data handed to the thread; that the allocation
  can fail is an argument. In \<open>Server_Main\<close> a signal to the main thread takes effect at the next
  test of the accept loop; while a client is served it is an activity that stops the server.
\<close>

end
